theory Spec2Isabelle
  imports Main "HOL-Library.Word"
begin

unbundle bit_operations_syntax

section \<open>Byte strings and the Go library functions the file system uses\<close>

text \<open>
  A Go \<open>string\<close> is a sequence of bytes; so is an Isabelle \<open>string\<close>. The functions of
  this section are the ones of Go's \<open>strings\<close> and \<open>path\<close> packages that hubfs.go calls.
\<close>

text \<open>\<open>strings.HasPrefix\<close>, \<open>strings.TrimPrefix\<close>, \<open>strings.TrimSuffix\<close>.\<close>

definition HasPrefix :: "string \<Rightarrow> string \<Rightarrow> bool" where
  "HasPrefix s p = (length p \<le> length s \<and> take (length p) s = p)"

definition TrimPrefix :: "string \<Rightarrow> string \<Rightarrow> string" where
  "TrimPrefix s p = (if HasPrefix s p then drop (length p) s else s)"

definition HasSuffix :: "string \<Rightarrow> string \<Rightarrow> bool" where
  "HasSuffix s x = (length x \<le> length s \<and> drop (length s - length x) s = x)"

definition TrimSuffix :: "string \<Rightarrow> string \<Rightarrow> string" where
  "TrimSuffix s x = (if HasSuffix s x then take (length s - length x) s else s)"

text \<open>
  \<open>strings.ReplaceAll(s, old, new)\<close> for a one-byte \<open>old\<close> and a one-byte \<open>new\<close>, the only
  way hubfs.go calls it (\<open>" "\<close> against \<open>"/"\<close>): every occurrence of the byte is replaced.
\<close>

definition ReplaceAll :: "string \<Rightarrow> char \<Rightarrow> char \<Rightarrow> string" where
  "ReplaceAll s old new = map (\<lambda>c. if c = old then new else c) s"

text \<open>
  \<open>strings.Split(s, sep)\<close> for a one-byte separator: the pieces between the separators,
  empty pieces included; the result is never empty (\<open>Split("", "/")\<close> is \<open>[""]\<close>).
\<close>

fun Split :: "string \<Rightarrow> char \<Rightarrow> string list" where
  "Split [] sep = [[]]"
| "Split (c # cs) sep =
     (if c = sep then [] # Split cs sep
      else (case Split cs sep of
              [] \<Rightarrow> [[c]]
            | p # ps \<Rightarrow> (c # p) # ps))"

text \<open>\<open>strings.Join(elems, sep)\<close> for a one-byte separator.\<close>

fun strings_Join :: "string list \<Rightarrow> char \<Rightarrow> string" where
  "strings_Join [] sep = []"
| "strings_Join [e] sep = e"
| "strings_Join (e # es) sep = e @ sep # strings_Join es sep"

subsection \<open>\<open>path.Clean\<close> and \<open>path.Join\<close>\<close>

text \<open>
  \<open>path.Clean\<close> reads the path from left to right and writes the cleaned path into a
  buffer \<open>out\<close>; \<open>dotdot\<close> is the index in the buffer below which a \<open>..\<close> element must not
  backtrack. The model keeps the unread rest of the path instead of the read index \<open>r\<close>,
  and the written part of the buffer as a string (\<open>out.w\<close> is its length).

  \<open>backtrack\<close> is the inner loop of the \<open>..\<close> case:
  \<^verbatim>\<open>for out.w > dotdot && out.index(out.w) != '/' { out.w-- }\<close>
\<close>

function backtrack :: "nat \<Rightarrow> string \<Rightarrow> nat \<Rightarrow> nat" where
  "backtrack dotdot out w =
     (if w > dotdot \<and> out ! w \<noteq> CHR ''/'' then backtrack dotdot out (w - 1) else w)"
  by pat_completeness auto
termination
  by (relation "measure (\<lambda>(dotdot, out, w). w)") auto

declare backtrack.simps [simp del]

function clean_loop :: "bool \<Rightarrow> string \<Rightarrow> string \<Rightarrow> nat \<Rightarrow> string" where
  "clean_loop rooted [] out dotdot = out"
| "clean_loop rooted (c # cs) out dotdot =
     (if c = CHR ''/'' then
        \<comment> \<open>empty path element\<close>
        clean_loop rooted cs out dotdot
      else if c = CHR ''.'' \<and> (cs = [] \<or> hd cs = CHR ''/'') then
        \<comment> \<open>\<open>.\<close> element\<close>
        clean_loop rooted cs out dotdot
      else if c = CHR ''.'' \<and> hd cs = CHR ''.'' \<and> (tl cs = [] \<or> hd (tl cs) = CHR ''/'') then
        \<comment> \<open>\<open>..\<close> element: remove to last \<open>/\<close>\<close>
        (if length out > dotdot then
           clean_loop rooted (tl cs) (take (backtrack dotdot out (length out - 1)) out) dotdot
         else if \<not> rooted then
           (let out' = (if length out > 0 then out @ ''/'' else out) @ ''..''
            in clean_loop rooted (tl cs) out' (length out'))
         else clean_loop rooted (tl cs) out dotdot)
      else
        \<comment> \<open>real path element: add slash if needed, copy element\<close>
        (let out' = (if rooted \<and> length out \<noteq> 1 \<or> \<not> rooted \<and> length out \<noteq> 0
                     then out @ ''/'' else out)
         in clean_loop rooted (dropWhile (\<lambda>x. x \<noteq> CHR ''/'') (c # cs))
              (out' @ takeWhile (\<lambda>x. x \<noteq> CHR ''/'') (c # cs)) dotdot))"
  by pat_completeness auto
termination
proof (relation "measure (\<lambda>(rooted, p, out, dotdot). length p)")
  fix rooted :: bool and c :: char and cs out :: string and dotdot :: nat and x :: string
  assume "c \<noteq> CHR ''/''"
  then have "dropWhile (\<lambda>x. x \<noteq> CHR ''/'') (c # cs) = dropWhile (\<lambda>x. x \<noteq> CHR ''/'') cs"
    by simp
  moreover have "length (dropWhile (\<lambda>x. x \<noteq> CHR ''/'') cs) \<le> length cs"
    by (rule length_dropWhile_le)
  ultimately show "((rooted, dropWhile (\<lambda>x. x \<noteq> CHR ''/'') (c # cs),
                     x @ takeWhile (\<lambda>x. x \<noteq> CHR ''/'') (c # cs), dotdot),
                    (rooted, c # cs, out, dotdot))
                   \<in> measure (\<lambda>(rooted, p, out, dotdot). length p)"
    by simp
qed (auto simp: less_Suc_eq_le)

definition Clean :: "string \<Rightarrow> string" where
  "Clean path =
     (if path = [] then ''.''
      else
        (let rooted = (hd path = CHR ''/'');
             out = (if rooted then clean_loop True (tl path) ''/'' 1
                    else clean_loop False path [] 0)
         in if out = [] then ''.'' else out))"

text \<open>
  \<open>path.Join\<close>: the elements from the first non-empty one on, joined with slashes and
  cleaned; the empty string when every element is empty.
\<close>

definition Join :: "string list \<Rightarrow> string" where
  "Join elem =
     (case dropWhile (\<lambda>e. e = []) elem of
        [] \<Rightarrow> []
      | es \<Rightarrow> Clean (strings_Join es CHR ''/''))"

section \<open>The path tokenizer\<close>

text \<open>
  \<open>split\<close> of hubfs.go: the components after the first one, and no component at all for
  the root.
\<close>

definition split :: "string \<Rightarrow> string list" where
  "split path =
     (let comp = tl (Split path CHR ''/'')
      in if length comp = 1 \<and> hd comp = [] then [] else comp)"

text \<open>The first statement of \<open>openex\<close>: \<open>lst = split(pathutil.Join(fs.prefix, path))\<close>.\<close>

definition tokens :: "string \<Rightarrow> string \<Rightarrow> string list" where
  "tokens prefix path = split (Join [prefix, path])"

section \<open>Ref names as file names\<close>

text \<open>
  Depth 2 of \<open>openex\<close> decodes the file name into the ref name it looks up
  (\<open>c = strings.ReplaceAll(c, " ", "/")\<close>), and encodes the name of the ref it found
  into the normalized file name (the \<open>norm\<close> branch of \<open>case 2\<close>).
\<close>

definition decode_ref :: "string \<Rightarrow> string" where
  "decode_ref c = ReplaceAll c CHR '' '' CHR ''/''"

definition encode_ref :: "string \<Rightarrow> string" where
  "encode_ref r =
     (let n = TrimPrefix r ''refs/heads/'';
          n = (if r = n then
                 (let n = TrimPrefix r ''refs/tags/'' in if r = n then r else n)
               else n)
      in ReplaceAll n CHR ''/'' CHR '' '')"

section \<open>File attributes\<close>

text \<open>The file type bits of \<open>fuse\<close> (octal 0170000, 0040000, 0100000, 0120000) and git's
  submodule type (octal 0160000).\<close>

definition S_IFMT :: "32 word" where "S_IFMT = 0xF000"
definition S_IFDIR :: "32 word" where "S_IFDIR = 0x4000"
definition S_IFREG :: "32 word" where "S_IFREG = 0x8000"
definition S_IFLNK :: "32 word" where "S_IFLNK = 0xA000"
definition S_IFSUBMODULE :: "32 word" where "S_IFSUBMODULE = 0xE000"

text \<open>
  A \<open>time.Time\<close> is an instant, here in nanoseconds since the epoch; \<open>fuse.NewTimespec\<close>
  only changes its representation. The fields of \<open>fuse.Stat_t\<close> that \<open>fuseStat\<close> does not
  name are zero and are left out.
\<close>

type_synonym time = int

record Stat_t =
  Mode :: "32 word"
  Nlink :: "32 word"
  Size :: "64 word"
  Atim :: time
  Mtim :: time
  Ctim :: time
  Birthtim :: time

text \<open>
  \<open>fuseStat\<close>. The permission bits are octal: 0755 is 493, 0777 is 511, 0644 is 420 and
  0400 is 256. In the default case the test \<open>0 != mode&0400\<close> reads the variable \<open>mode\<close>
  after it has been overwritten with \<open>S_IFREG | 0644\<close>.
\<close>

definition fuseStat :: "32 word \<Rightarrow> 64 word \<Rightarrow> time \<Rightarrow> Stat_t" where
  "fuseStat mode sz t =
     (let mode =
        (if mode AND S_IFMT = S_IFDIR then S_IFDIR OR 493
         else if mode AND S_IFMT = S_IFLNK \<or> mode AND S_IFMT = S_IFSUBMODULE then S_IFLNK OR 511
         else
           (let mode = S_IFREG OR 420
            in if 0 \<noteq> mode AND 256 then S_IFREG OR 493 else mode))
      in \<lparr>Mode = mode, Nlink = 1, Size = sz, Atim = t, Mtim = t, Ctim = t, Birthtim = t\<rparr>)"

section \<open>The provider\<close>

text \<open>
  The provider layer is outside the file system: \<open>hubfs\<close> holds a \<open>providers.Client\<close> and
  receives \<open>Owner\<close>, \<open>Repository\<close>, \<open>Ref\<close> and \<open>TreeEntry\<close> values from it. These four
  interfaces are the type parameters \<open>'o\<close>, \<open>'r\<close>, \<open>'f\<close> and \<open>'e\<close>; an interface value that
  may be \<open>nil\<close> is an \<open>option\<close>. The provider has a state of its own, \<open>'s\<close>, that every call
  may read and change. A Go call returning \<open>(value, err)\<close> returns \<open>Inl err\<close> or
  \<open>Inr value\<close>: the value is \<open>nil\<close> exactly when the error is not.
\<close>

datatype error = ErrNotFound | ErrOther string

record ('s, 'o, 'r, 'f, 'e) Client =
  OpenOwner :: "string \<Rightarrow> 's \<Rightarrow> (error + 'o) \<times> 's"
  CloseOwner :: "'o \<Rightarrow> 's \<Rightarrow> 's"
  OpenRepository :: "'o option \<Rightarrow> string \<Rightarrow> 's \<Rightarrow> (error + 'r) \<times> 's"
  CloseRepository :: "'r \<Rightarrow> 's \<Rightarrow> 's"
  GetOwners :: "'s \<Rightarrow> (error + 'o list) \<times> 's"
  GetRepositories :: "'o \<Rightarrow> 's \<Rightarrow> (error + 'r list) \<times> 's"
  GetRefs :: "'r \<Rightarrow> 's \<Rightarrow> (error + 'f list) \<times> 's"
  GetRef :: "'r \<Rightarrow> string \<Rightarrow> 's \<Rightarrow> (error + 'f) \<times> 's"
  GetTempRef :: "'r \<Rightarrow> string \<Rightarrow> 's \<Rightarrow> (error + 'f) \<times> 's"
  GetTree :: "'r \<Rightarrow> 'f \<Rightarrow> 'e option \<Rightarrow> 's \<Rightarrow> (error + 'e list) \<times> 's"
  GetTreeEntry :: "'r \<Rightarrow> 'f option \<Rightarrow> 'e option \<Rightarrow> string \<Rightarrow> 's \<Rightarrow> (error + 'e) \<times> 's"
  GetModule :: "'r \<Rightarrow> 'f \<Rightarrow> string \<Rightarrow> bool \<Rightarrow> 's \<Rightarrow> (string \<times> error option) \<times> 's"
  OwnerName :: "'o \<Rightarrow> string"
  RepositoryName :: "'r \<Rightarrow> string"
  RefName :: "'f \<Rightarrow> string"
  RefTreeTime :: "'f \<Rightarrow> time"
  EntryName :: "'e \<Rightarrow> string"
  EntryMode :: "'e \<Rightarrow> 32 word"
  EntrySize :: "'e \<Rightarrow> 64 word"
  EntryTarget :: "'e \<Rightarrow> string"

text \<open>
  Every call of a provider capability is recorded, in order, next to the provider's
  state: the record is how a statement says which calls an operation made. The two
  acquiring calls are recorded with their results.
\<close>

datatype ('o, 'r, 'f, 'e) call =
    OpenOwner_call string "error + 'o"
  | CloseOwner_call 'o
  | OpenRepository_call "'o option" string "error + 'r"
  | CloseRepository_call 'r
  | GetOwners_call
  | GetRepositories_call 'o
  | GetRefs_call 'r
  | GetRef_call 'r string
  | GetTempRef_call 'r string
  | GetTree_call 'r 'f "'e option"
  | GetTreeEntry_call 'r "'f option" "'e option" string
  | GetModule_call 'r 'f string bool

type_synonym ('s, 'o, 'r, 'f, 'e) world = "'s \<times> ('o, 'r, 'f, 'e) call list"

definition do_OpenOwner ::
  "('s, 'o, 'r, 'f, 'e) Client \<Rightarrow> string \<Rightarrow> ('s, 'o, 'r, 'f, 'e) world
   \<Rightarrow> (error + 'o) \<times> ('s, 'o, 'r, 'f, 'e) world" where
  "do_OpenOwner cl c w =
     (let (r, s) = OpenOwner cl c (fst w) in (r, (s, snd w @ [OpenOwner_call c r])))"

definition do_CloseOwner ::
  "('s, 'o, 'r, 'f, 'e) Client \<Rightarrow> 'o \<Rightarrow> ('s, 'o, 'r, 'f, 'e) world
   \<Rightarrow> ('s, 'o, 'r, 'f, 'e) world" where
  "do_CloseOwner cl ow w = (CloseOwner cl ow (fst w), snd w @ [CloseOwner_call ow])"

definition do_OpenRepository ::
  "('s, 'o, 'r, 'f, 'e) Client \<Rightarrow> 'o option \<Rightarrow> string \<Rightarrow> ('s, 'o, 'r, 'f, 'e) world
   \<Rightarrow> (error + 'r) \<times> ('s, 'o, 'r, 'f, 'e) world" where
  "do_OpenRepository cl ow c w =
     (let (r, s) = OpenRepository cl ow c (fst w)
      in (r, (s, snd w @ [OpenRepository_call ow c r])))"

definition do_CloseRepository ::
  "('s, 'o, 'r, 'f, 'e) Client \<Rightarrow> 'r \<Rightarrow> ('s, 'o, 'r, 'f, 'e) world
   \<Rightarrow> ('s, 'o, 'r, 'f, 'e) world" where
  "do_CloseRepository cl repo w =
     (CloseRepository cl repo (fst w), snd w @ [CloseRepository_call repo])"

definition do_GetOwners ::
  "('s, 'o, 'r, 'f, 'e) Client \<Rightarrow> ('s, 'o, 'r, 'f, 'e) world
   \<Rightarrow> (error + 'o list) \<times> ('s, 'o, 'r, 'f, 'e) world" where
  "do_GetOwners cl w =
     (let (r, s) = GetOwners cl (fst w) in (r, (s, snd w @ [GetOwners_call])))"

definition do_GetRepositories ::
  "('s, 'o, 'r, 'f, 'e) Client \<Rightarrow> 'o \<Rightarrow> ('s, 'o, 'r, 'f, 'e) world
   \<Rightarrow> (error + 'r list) \<times> ('s, 'o, 'r, 'f, 'e) world" where
  "do_GetRepositories cl ow w =
     (let (r, s) = GetRepositories cl ow (fst w)
      in (r, (s, snd w @ [GetRepositories_call ow])))"

definition do_GetRefs ::
  "('s, 'o, 'r, 'f, 'e) Client \<Rightarrow> 'r \<Rightarrow> ('s, 'o, 'r, 'f, 'e) world
   \<Rightarrow> (error + 'f list) \<times> ('s, 'o, 'r, 'f, 'e) world" where
  "do_GetRefs cl repo w =
     (let (r, s) = GetRefs cl repo (fst w) in (r, (s, snd w @ [GetRefs_call repo])))"

definition do_GetRef ::
  "('s, 'o, 'r, 'f, 'e) Client \<Rightarrow> 'r \<Rightarrow> string \<Rightarrow> ('s, 'o, 'r, 'f, 'e) world
   \<Rightarrow> (error + 'f) \<times> ('s, 'o, 'r, 'f, 'e) world" where
  "do_GetRef cl repo name w =
     (let (r, s) = GetRef cl repo name (fst w) in (r, (s, snd w @ [GetRef_call repo name])))"

definition do_GetTempRef ::
  "('s, 'o, 'r, 'f, 'e) Client \<Rightarrow> 'r \<Rightarrow> string \<Rightarrow> ('s, 'o, 'r, 'f, 'e) world
   \<Rightarrow> (error + 'f) \<times> ('s, 'o, 'r, 'f, 'e) world" where
  "do_GetTempRef cl repo name w =
     (let (r, s) = GetTempRef cl repo name (fst w)
      in (r, (s, snd w @ [GetTempRef_call repo name])))"

definition do_GetTree ::
  "('s, 'o, 'r, 'f, 'e) Client \<Rightarrow> 'r \<Rightarrow> 'f \<Rightarrow> 'e option \<Rightarrow> ('s, 'o, 'r, 'f, 'e) world
   \<Rightarrow> (error + 'e list) \<times> ('s, 'o, 'r, 'f, 'e) world" where
  "do_GetTree cl repo rf en w =
     (let (r, s) = GetTree cl repo rf en (fst w)
      in (r, (s, snd w @ [GetTree_call repo rf en])))"

definition do_GetTreeEntry ::
  "('s, 'o, 'r, 'f, 'e) Client \<Rightarrow> 'r \<Rightarrow> 'f option \<Rightarrow> 'e option \<Rightarrow> string
   \<Rightarrow> ('s, 'o, 'r, 'f, 'e) world \<Rightarrow> (error + 'e) \<times> ('s, 'o, 'r, 'f, 'e) world" where
  "do_GetTreeEntry cl repo rf en name w =
     (let (r, s) = GetTreeEntry cl repo rf en name (fst w)
      in (r, (s, snd w @ [GetTreeEntry_call repo rf en name])))"

definition do_GetModule ::
  "('s, 'o, 'r, 'f, 'e) Client \<Rightarrow> 'r \<Rightarrow> 'f \<Rightarrow> string \<Rightarrow> bool
   \<Rightarrow> ('s, 'o, 'r, 'f, 'e) world
   \<Rightarrow> (string \<times> error option) \<times> ('s, 'o, 'r, 'f, 'e) world" where
  "do_GetModule cl repo rf path recur w =
     (let (r, s) = GetModule cl repo rf path recur (fst w)
      in (r, (s, snd w @ [GetModule_call repo rf path recur])))"

section \<open>The resolver\<close>

text \<open>The errno values of \<open>fuse\<close> (the ones of the host: 2 and 5), and \<open>fuseErrc\<close>.\<close>

definition ENOENT :: int where "ENOENT = 2"
definition EIO :: int where "EIO = 5"

definition fuseErrc :: "error \<Rightarrow> int" where
  "fuseErrc err = (if ErrNotFound = err then - ENOENT else - EIO)"

text \<open>The \<open>reader\<close> slot of an obstack is written by \<open>Read\<close> only, which is not part of
  this development; the slot is left out.\<close>

record ('o, 'r, 'f, 'e) obstack =
  owner :: "'o option"
  repository :: "'r option"
  ref :: "'f option"
  entry :: "'e option"

definition empty_obstack :: "('o, 'r, 'f, 'e) obstack" where
  "empty_obstack = \<lparr>owner = None, repository = None, ref = None, entry = None\<rparr>"

definition release ::
  "('s, 'o, 'r, 'f, 'e) Client \<Rightarrow> ('o, 'r, 'f, 'e) obstack \<Rightarrow> ('s, 'o, 'r, 'f, 'e) world
   \<Rightarrow> ('s, 'o, 'r, 'f, 'e) world" where
  "release cl obs w =
     (let w = (case repository obs of None \<Rightarrow> w | Some repo \<Rightarrow> do_CloseRepository cl repo w)
      in case owner obs of None \<Rightarrow> w | Some ow \<Rightarrow> do_CloseOwner cl ow w)"

text \<open>
  The fallback chain of depth 2 (lines 86 to 92 of hubfs.go), for the decoded name \<open>c\<close>.
\<close>

definition getref_chain ::
  "('s, 'o, 'r, 'f, 'e) Client \<Rightarrow> 'r \<Rightarrow> string \<Rightarrow> ('s, 'o, 'r, 'f, 'e) world
   \<Rightarrow> (error + 'f) \<times> ('s, 'o, 'r, 'f, 'e) world" where
  "getref_chain cl repo c w =
     (case do_GetRef cl repo (''refs/heads/'' @ c) w of
        (Inl ErrNotFound, w) \<Rightarrow>
          (case do_GetRef cl repo (''refs/tags/'' @ c) w of
             (Inl ErrNotFound, w) \<Rightarrow> do_GetTempRef cl repo c w
           | (r, w) \<Rightarrow> (r, w))
      | (r, w) \<Rightarrow> (r, w))"

text \<open>
  One iteration of the loop of \<open>openex\<close>, up to the test \<open>nil != err\<close>: the \<open>switch\<close> on the
  index \<open>i\<close> of the token \<open>c\<close>. The result is the error (if any), the obstack, the token
  list and the world after the iteration. A method call on a \<open>nil\<close> repository panics:
  the result is \<open>None\<close>. At index 0, \<open>strings.IndexFunc\<close> looks for the rune \<open>.\<close>, which
  UTF-8 encodes as the single byte \<open>.\<close> and as no part of another rune: the token is
  rejected exactly when that byte occurs in it.
\<close>

definition openex_step ::
  "('s, 'o, 'r, 'f, 'e) Client \<Rightarrow> bool \<Rightarrow> nat \<Rightarrow> string \<Rightarrow> string list
   \<Rightarrow> ('o, 'r, 'f, 'e) obstack \<Rightarrow> ('s, 'o, 'r, 'f, 'e) world
   \<Rightarrow> (error option \<times> ('o, 'r, 'f, 'e) obstack \<times> string list \<times> ('s, 'o, 'r, 'f, 'e) world) option"
  where
  "openex_step cl norm i c lst obs w =
     (if i = 0 then
        (if CHR ''.'' \<in> set c \<or> ''HEAD'' = c then
           Some (Some ErrNotFound, obs\<lparr>owner := None\<rparr>, lst, w)
         else
           (case do_OpenOwner cl c w of
              (Inl err, w) \<Rightarrow> Some (Some err, obs\<lparr>owner := None\<rparr>, lst, w)
            | (Inr ow, w) \<Rightarrow>
                Some (None, obs\<lparr>owner := Some ow\<rparr>,
                      if norm then lst[i := OwnerName cl ow] else lst, w)))
      else if i = 1 then
        (case do_OpenRepository cl (owner obs) c w of
           (Inl err, w) \<Rightarrow> Some (Some err, obs\<lparr>repository := None\<rparr>, lst, w)
         | (Inr repo, w) \<Rightarrow>
             Some (None, obs\<lparr>repository := Some repo\<rparr>,
                   if norm then lst[i := RepositoryName cl repo] else lst, w))
      else if i = 2 then
        (let c = decode_ref c
         in case repository obs of
              None \<Rightarrow> None
            | Some repo \<Rightarrow>
                (case getref_chain cl repo c w of
                   (Inl err, w) \<Rightarrow> Some (Some err, obs\<lparr>ref := None\<rparr>, lst, w)
                 | (Inr rf, w) \<Rightarrow>
                     Some (None, obs\<lparr>ref := Some rf\<rparr>,
                           if norm then lst[i := encode_ref (RefName cl rf)] else lst, w)))
      else
        (case repository obs of
           None \<Rightarrow> None
         | Some repo \<Rightarrow>
             (case do_GetTreeEntry cl repo (ref obs) (entry obs) c w of
                (Inl err, w) \<Rightarrow> Some (Some err, obs\<lparr>entry := None\<rparr>, lst, w)
              | (Inr en, w) \<Rightarrow>
                  Some (None, obs\<lparr>entry := Some en\<rparr>,
                        if norm then lst[i := EntryName cl en] else lst, w))))"

text \<open>
  The loop \<open>for i, c := range lst\<close>: \<open>cs\<close> are the tokens still to visit, from index \<open>i\<close>
  on. An iteration writes \<open>lst[i]\<close> only, after \<open>c\<close> has been read, so the tokens still to
  visit are the ones of the list as it was split. The result is \<open>(errc, res, lst)\<close> and
  the world; \<open>res\<close> is \<open>nil\<close> when the loop returns early.
\<close>

fun openex_loop ::
  "('s, 'o, 'r, 'f, 'e) Client \<Rightarrow> bool \<Rightarrow> nat \<Rightarrow> string list \<Rightarrow> string list
   \<Rightarrow> ('o, 'r, 'f, 'e) obstack \<Rightarrow> ('s, 'o, 'r, 'f, 'e) world
   \<Rightarrow> (int \<times> ('o, 'r, 'f, 'e) obstack option \<times> string list \<times> ('s, 'o, 'r, 'f, 'e) world) option"
  where
  "openex_loop cl norm i [] lst obs w = Some (0, Some obs, lst, w)"
| "openex_loop cl norm i (c # cs) lst obs w =
     (case openex_step cl norm i c lst obs w of
        None \<Rightarrow> None
      | Some (Some err, obs, lst, w) \<Rightarrow> Some (fuseErrc err, None, lst, release cl obs w)
      | Some (None, obs, lst, w) \<Rightarrow> openex_loop cl norm (i + 1) cs lst obs w)"

text \<open>The file system: the fields of \<open>hubfs\<close> but the lock.\<close>

record ('s, 'o, 'r, 'f, 'e) hubfs =
  client :: "('s, 'o, 'r, 'f, 'e) Client"
  prefix :: string
  fh :: "64 word"
  openmap :: "64 word \<rightharpoonup> ('o, 'r, 'f, 'e) obstack option"

definition openex ::
  "('s, 'o, 'r, 'f, 'e) hubfs \<Rightarrow> string \<Rightarrow> bool \<Rightarrow> ('s, 'o, 'r, 'f, 'e) world
   \<Rightarrow> (int \<times> ('o, 'r, 'f, 'e) obstack option \<times> string list \<times> ('s, 'o, 'r, 'f, 'e) world) option"
  where
  "openex fs path norm w =
     (let lst = split (Join [prefix fs, path])
      in openex_loop (client fs) norm 0 lst lst empty_obstack w)"

definition new :: "('s, 'o, 'r, 'f, 'e) Client \<Rightarrow> string \<Rightarrow> ('s, 'o, 'r, 'f, 'e) hubfs" where
  "new c p = \<lparr>client = c, prefix = p, fh = 0, openmap = Map.empty\<rparr>"

definition "open" ::
  "('s, 'o, 'r, 'f, 'e) hubfs \<Rightarrow> string \<Rightarrow> ('s, 'o, 'r, 'f, 'e) world
   \<Rightarrow> (int \<times> ('o, 'r, 'f, 'e) obstack option \<times> ('s, 'o, 'r, 'f, 'e) world) option" where
  "open fs path w =
     (case openex fs path False w of
        None \<Rightarrow> None
      | Some (errc, res, lst, w) \<Rightarrow> Some (errc, res, w))"

section \<open>The operations of the file system\<close>


text \<open>\<open>Opendir\<close> and \<open>Open\<close> store the pointer \<open>obs\<close> they got from \<open>open\<close> under the next
  handle; the counter \<open>fh\<close> is a \<open>uint64\<close> and \<open>fs.fh++\<close> wraps.\<close>

definition Opendir ::
  "('s, 'o, 'r, 'f, 'e) hubfs \<Rightarrow> string \<Rightarrow> ('s, 'o, 'r, 'f, 'e) world
   \<Rightarrow> (int \<times> 64 word \<times> ('s, 'o, 'r, 'f, 'e) hubfs \<times> ('s, 'o, 'r, 'f, 'e) world) option" where
  "Opendir fs path w =
     (case open fs path w of
        None \<Rightarrow> None
      | Some (errc, obs, w) \<Rightarrow>
          if 0 \<noteq> errc then Some (errc, 0, fs, w)
          else Some (errc, fh fs, fs\<lparr>openmap := (openmap fs)(fh fs \<mapsto> obs), fh := fh fs + 1\<rparr>, w))"

definition Open ::
  "('s, 'o, 'r, 'f, 'e) hubfs \<Rightarrow> string \<Rightarrow> int \<Rightarrow> ('s, 'o, 'r, 'f, 'e) world
   \<Rightarrow> (int \<times> 64 word \<times> ('s, 'o, 'r, 'f, 'e) hubfs \<times> ('s, 'o, 'r, 'f, 'e) world) option" where
  "Open fs path flags w =
     (case open fs path w of
        None \<Rightarrow> None
      | Some (errc, obs, w) \<Rightarrow>
          if 0 \<noteq> errc then Some (errc, 0, fs, w)
          else Some (errc, fh fs, fs\<lparr>openmap := (openmap fs)(fh fs \<mapsto> obs), fh := fh fs + 1\<rparr>, w))"

text \<open>\<open>Releasedir\<close> and \<open>Release\<close>; the latter without the closing of the reader, which no
  obstack of this development has.\<close>

definition Releasedir ::
  "('s, 'o, 'r, 'f, 'e) hubfs \<Rightarrow> string \<Rightarrow> 64 word \<Rightarrow> ('s, 'o, 'r, 'f, 'e) world
   \<Rightarrow> (int \<times> ('s, 'o, 'r, 'f, 'e) hubfs \<times> ('s, 'o, 'r, 'f, 'e) world) option" where
  "Releasedir fs path h w =
     (case openmap fs h of
        None \<Rightarrow> Some (- ENOENT, fs, w)
      | Some None \<Rightarrow> None
      | Some (Some obs) \<Rightarrow>
          Some (0, fs\<lparr>openmap := (openmap fs)(h := None)\<rparr>, release (client fs) obs w))"

definition Release ::
  "('s, 'o, 'r, 'f, 'e) hubfs \<Rightarrow> string \<Rightarrow> 64 word \<Rightarrow> ('s, 'o, 'r, 'f, 'e) world
   \<Rightarrow> (int \<times> ('s, 'o, 'r, 'f, 'e) hubfs \<times> ('s, 'o, 'r, 'f, 'e) world) option" where
  "Release fs path h w =
     (case openmap fs h of
        None \<Rightarrow> Some (- ENOENT, fs, w)
      | Some None \<Rightarrow> None
      | Some (Some obs) \<Rightarrow>
          Some (0, fs\<lparr>openmap := (openmap fs)(h := None)\<rparr>, release (client fs) obs w))"

subsection \<open>Attributes of an entry\<close>

text \<open>
  \<open>getattr\<close> returns the link target and the stat it wrote. It panics on \<open>obs.ref.TreeTime()\<close>
  when the ref is \<open>nil\<close>, on the slice \<open>[3:]\<close> of fewer than three tokens, and on
  \<open>obs.repository.GetModule\<close> when the repository is \<open>nil\<close>. The trace output of \<open>tracef\<close> is
  not modelled.
\<close>

definition getattr ::
  "('s, 'o, 'r, 'f, 'e) hubfs \<Rightarrow> ('o, 'r, 'f, 'e) obstack \<Rightarrow> 'e option \<Rightarrow> string \<Rightarrow> time
   \<Rightarrow> ('s, 'o, 'r, 'f, 'e) world \<Rightarrow> (string \<times> Stat_t \<times> ('s, 'o, 'r, 'f, 'e) world) option" where
  "getattr fs obs en path now w =
     (case en of
        None \<Rightarrow> Some ([], fuseStat S_IFDIR 0 now, w)
      | Some en \<Rightarrow>
          (let mode = EntryMode (client fs) en
           in case ref obs of
                None \<Rightarrow> None
              | Some rf \<Rightarrow>
                  (let stat = fuseStat mode (EntrySize (client fs) en) (RefTreeTime (client fs) rf)
                   in if mode AND S_IFMT = S_IFLNK then
                        (let target = EntryTarget (client fs) en
                         in Some (target, stat\<lparr>Size := of_nat (length target)\<rparr>, w))
                      else if mode AND S_IFMT = S_IFSUBMODULE then
                        (let target = EntryTarget (client fs) en;
                             lst = split (Join [prefix fs, path])
                         in if length lst < 3 then None
                            else
                              (let path = strings_Join (drop 3 lst) CHR ''/''
                               in case repository obs of
                                    None \<Rightarrow> None
                                  | Some repo \<Rightarrow>
                                      (case do_GetModule (client fs) repo rf path True w of
                                         ((module, err), w) \<Rightarrow>
                                           (let module = TrimPrefix module (TrimSuffix (prefix fs) ''/'');
                                                target = (if [] \<noteq> module
                                                          then module @ ''/'' @ EntryTarget (client fs) en
                                                          else target)
                                            in Some (target, stat\<lparr>Size := of_nat (length target)\<rparr>, w)))))
                      else Some ([], stat, w))))"

subsection \<open>Reading a directory\<close>

text \<open>
  \<open>fill\<close> is the callback of the host: it answers whether the enumeration goes on. The
  model gives it the entries it has been passed before (its own memory) and the entry
  it is passed now; the offset it is passed is always zero. What \<open>Readdir\<close> returns, next
  to \<open>errc\<close>, is the list of the entries it has passed to \<open>fill\<close>, in order.
\<close>

type_synonym dirent = "string \<times> Stat_t"
type_synonym filler = "dirent list \<Rightarrow> dirent \<Rightarrow> bool"

text \<open>The loop over the tree entries of \<open>GetTree\<close>.\<close>

primrec fill_tree ::
  "('s, 'o, 'r, 'f, 'e) hubfs \<Rightarrow> ('o, 'r, 'f, 'e) obstack \<Rightarrow> string \<Rightarrow> filler \<Rightarrow> time
   \<Rightarrow> 'e list \<Rightarrow> dirent list \<Rightarrow> ('s, 'o, 'r, 'f, 'e) world
   \<Rightarrow> (dirent list \<times> ('s, 'o, 'r, 'f, 'e) world) option" where
  "fill_tree fs obs path fill now [] out w = Some (out, w)"
| "fill_tree fs obs path fill now (elm # lst) out w =
     (let n = EntryName (client fs) elm
      in case getattr fs obs (Some elm) (Join [path, n]) now w of
           None \<Rightarrow> None
         | Some (target, stat, w) \<Rightarrow>
             if \<not> fill out (n, stat) then Some (out @ [(n, stat)], w)
             else fill_tree fs obs path fill now lst (out @ [(n, stat)]) w)"

text \<open>The loop over the refs of \<open>GetRefs\<close>.\<close>

primrec fill_refs ::
  "('s, 'o, 'r, 'f, 'e) Client \<Rightarrow> filler \<Rightarrow> Stat_t \<Rightarrow> 'f list \<Rightarrow> dirent list \<Rightarrow> dirent list" where
  "fill_refs cl fill stat [] out = out"
| "fill_refs cl fill stat (elm # lst) out =
     (let r = RefName cl elm;
          n = TrimPrefix r ''refs/heads/''
      in if r = n then fill_refs cl fill stat lst out
         else
           (let n = ReplaceAll n CHR ''/'' CHR '' ''
            in if \<not> fill out (n, stat) then out @ [(n, stat)]
               else fill_refs cl fill stat lst (out @ [(n, stat)])))"

text \<open>The loops over the repositories of \<open>GetRepositories\<close> and the owners of \<open>GetOwners\<close>,
  for the names of the elements.\<close>

primrec fill_names :: "filler \<Rightarrow> Stat_t \<Rightarrow> string list \<Rightarrow> dirent list \<Rightarrow> dirent list" where
  "fill_names fill stat [] out = out"
| "fill_names fill stat (n # lst) out =
     (if \<not> fill out (n, stat) then out @ [(n, stat)]
      else fill_names fill stat lst (out @ [(n, stat)]))"

definition Readdir ::
  "('s, 'o, 'r, 'f, 'e) hubfs \<Rightarrow> string \<Rightarrow> filler \<Rightarrow> 64 word \<Rightarrow> time
   \<Rightarrow> ('s, 'o, 'r, 'f, 'e) world
   \<Rightarrow> (int \<times> dirent list \<times> ('s, 'o, 'r, 'f, 'e) world) option" where
  "Readdir fs path fill h now w =
     (case openmap fs h of
        None \<Rightarrow> Some (- ENOENT, [], w)
      | Some None \<Rightarrow> None
      | Some (Some obs) \<Rightarrow>
          (case (if None \<noteq> entry obs
                 then (case ref obs of
                         None \<Rightarrow> None
                       | Some rf \<Rightarrow> Some (fuseStat S_IFDIR 0 (RefTreeTime (client fs) rf)))
                 else Some (fuseStat S_IFDIR 0 now)) of
             None \<Rightarrow> None
           | Some stat \<Rightarrow>
               (let out = [(''.'', stat), (''..'', stat)]
                in case ref obs of
                     Some rf \<Rightarrow>
                       (case repository obs of
                          None \<Rightarrow> None
                        | Some repo \<Rightarrow>
                            (case do_GetTree (client fs) repo rf (entry obs) w of
                               (Inr lst, w) \<Rightarrow>
                                 (case fill_tree fs obs path fill now lst out w of
                                    None \<Rightarrow> None
                                  | Some (out, w) \<Rightarrow> Some (0, out, w))
                             | (Inl err, w) \<Rightarrow> Some (0, out, w)))
                   | None \<Rightarrow>
                       (case repository obs of
                          Some repo \<Rightarrow>
                            (case do_GetRefs (client fs) repo w of
                               (Inr lst, w) \<Rightarrow> Some (0, fill_refs (client fs) fill stat lst out, w)
                             | (Inl err, w) \<Rightarrow> Some (0, out, w))
                        | None \<Rightarrow>
                            (case owner obs of
                               Some ow \<Rightarrow>
                                 (case do_GetRepositories (client fs) ow w of
                                    (Inr lst, w) \<Rightarrow>
                                      Some (0, fill_names fill stat
                                                 (map (RepositoryName (client fs)) lst) out, w)
                                  | (Inl err, w) \<Rightarrow> Some (0, out, w))
                             | None \<Rightarrow>
                                 (case do_GetOwners (client fs) w of
                                    (Inr lst, w) \<Rightarrow>
                                      Some (0, fill_names fill stat
                                                 (map (OwnerName (client fs)) lst) out, w)
                                  | (Inl err, w) \<Rightarrow> Some (0, out, w)))))))"

section \<open>Notions used in the statements\<close>

text \<open>A string without two slashes in a row.\<close>

fun no_double_slash :: "string \<Rightarrow> bool" where
  "no_double_slash (a # b # s) = (\<not> (a = CHR ''/'' \<and> b = CHR ''/'') \<and> no_double_slash (b # s))"
| "no_double_slash s = True"

text \<open>
  The obstack is populated to depth \<open>k\<close>: it has an owner from depth 1 on, a repository
  from depth 2 on, a ref from depth 3 on, an entry from depth 4 on, and nothing else.
\<close>

definition populated :: "nat \<Rightarrow> ('o, 'r, 'f, 'e) obstack \<Rightarrow> bool" where
  "populated k obs =
     ((owner obs \<noteq> None) = (1 \<le> k) \<and> (repository obs \<noteq> None) = (2 \<le> k) \<and>
      (ref obs \<noteq> None) = (3 \<le> k) \<and> (entry obs \<noteq> None) = (4 \<le> k))"

text \<open>
  The owners and the repositories that a sequence of provider calls leaves open, given
  the ones that were open before it: a successful \<open>OpenOwner\<close> or \<open>OpenRepository\<close> adds its
  result, \<open>CloseOwner\<close> and \<open>CloseRepository\<close> remove their argument.
\<close>

definition owner_step :: "'o list \<Rightarrow> ('o, 'r, 'f, 'e) call \<Rightarrow> 'o list" where
  "owner_step acc ev =
     (case ev of
        OpenOwner_call c (Inr ow) \<Rightarrow> acc @ [ow]
      | CloseOwner_call ow \<Rightarrow> remove1 ow acc
      | _ \<Rightarrow> acc)"

definition repository_step :: "'r list \<Rightarrow> ('o, 'r, 'f, 'e) call \<Rightarrow> 'r list" where
  "repository_step acc ev =
     (case ev of
        OpenRepository_call ow c (Inr repo) \<Rightarrow> acc @ [repo]
      | CloseRepository_call repo \<Rightarrow> remove1 repo acc
      | _ \<Rightarrow> acc)"

definition open_owners :: "'o list \<Rightarrow> ('o, 'r, 'f, 'e) call list \<Rightarrow> 'o list" where
  "open_owners acc evs = foldl owner_step acc evs"

definition open_repositories :: "'r list \<Rightarrow> ('o, 'r, 'f, 'e) call list \<Rightarrow> 'r list" where
  "open_repositories acc evs = foldl repository_step acc evs"

text \<open>The owner and the repository an obstack holds, as lists.\<close>

definition owners_of :: "('o, 'r, 'f, 'e) obstack \<Rightarrow> 'o list" where
  "owners_of obs = (case owner obs of None \<Rightarrow> [] | Some ow \<Rightarrow> [ow])"

definition repositories_of :: "('o, 'r, 'f, 'e) obstack \<Rightarrow> 'r list" where
  "repositories_of obs = (case repository obs of None \<Rightarrow> [] | Some repo \<Rightarrow> [repo])"

text \<open>The error and the value of a Go result \<open>(value, err)\<close>.\<close>

definition result_error :: "error + 'a \<Rightarrow> error option" where
  "result_error r = (case r of Inl err \<Rightarrow> Some err | Inr v \<Rightarrow> None)"

definition result_value :: "error + 'a \<Rightarrow> 'a option" where
  "result_value r = (case r of Inl err \<Rightarrow> None | Inr v \<Rightarrow> Some v)"

text \<open>
  The listing of a repository in the words of the specification: the refs whose name
  starts with \<open>refs/heads/\<close>, with that prefix stripped and each slash as a space.
\<close>

definition heads_listing :: "('s, 'o, 'r, 'f, 'e) Client \<Rightarrow> 'f list \<Rightarrow> string list" where
  "heads_listing cl refs =
     map (\<lambda>r. ReplaceAll (drop (length ''refs/heads/'') r) CHR ''/'' CHR '' '')
       (filter (\<lambda>r. HasPrefix r ''refs/heads/'') (map (RefName cl) refs))"







text \<open>Every handle of the table is bound to an obstack (not to \<open>nil\<close>) that is
  populated to some depth.\<close>

definition table_ok :: "('s, 'o, 'r, 'f, 'e) hubfs \<Rightarrow> bool" where
  "table_ok fs = (\<forall>h x. openmap fs h = Some x \<longrightarrow> (\<exists>obs k. x = Some obs \<and> populated k obs))"

text \<open>
  A sequence of calls of the host on the handle table, and the handles that its
  successful \<open>Open\<close> and \<open>Opendir\<close> calls return, in order.
\<close>

datatype op =
    Op_Open string int
  | Op_Opendir string
  | Op_Release string "64 word"
  | Op_Releasedir string "64 word"

definition run_op ::
  "op \<Rightarrow> ('s, 'o, 'r, 'f, 'e) hubfs \<Rightarrow> ('s, 'o, 'r, 'f, 'e) world
   \<Rightarrow> (64 word list \<times> ('s, 'o, 'r, 'f, 'e) hubfs \<times> ('s, 'o, 'r, 'f, 'e) world) option" where
  "run_op x fs w =
     (case x of
        Op_Open path flags \<Rightarrow>
          (case Open fs path flags w of
             None \<Rightarrow> None
           | Some (errc, h, fs, w) \<Rightarrow> Some (if errc = 0 then [h] else [], fs, w))
      | Op_Opendir path \<Rightarrow>
          (case Opendir fs path w of
             None \<Rightarrow> None
           | Some (errc, h, fs, w) \<Rightarrow> Some (if errc = 0 then [h] else [], fs, w))
      | Op_Release path h \<Rightarrow>
          (case Release fs path h w of
             None \<Rightarrow> None
           | Some (errc, fs, w) \<Rightarrow> Some ([], fs, w))
      | Op_Releasedir path h \<Rightarrow>
          (case Releasedir fs path h w of
             None \<Rightarrow> None
           | Some (errc, fs, w) \<Rightarrow> Some ([], fs, w)))"

primrec run ::
  "op list \<Rightarrow> ('s, 'o, 'r, 'f, 'e) hubfs \<Rightarrow> ('s, 'o, 'r, 'f, 'e) world
   \<Rightarrow> (64 word list \<times> ('s, 'o, 'r, 'f, 'e) hubfs \<times> ('s, 'o, 'r, 'f, 'e) world) option" where
  "run [] fs w = Some ([], fs, w)"
| "run (x # xs) fs w =
     (case run_op x fs w of
        None \<Rightarrow> None
      | Some (hs, fs, w) \<Rightarrow>
          (case run xs fs w of
             None \<Rightarrow> None
           | Some (hs', fs, w) \<Rightarrow> Some (hs @ hs', fs, w)))"

text \<open>
  A small provider for concrete runs. Its state says whether the host is reachable;
  when it is not, every call fails with an error other than \<open>ErrNotFound\<close>. It has one
  owner \<open>Alice\<close> with one repository \<open>Project\<close>, found under any capitalisation of their
  first letter, the branches \<open>main\<close> and \<open>feature/x\<close>, the tag \<open>v1.0\<close>, and a tree of a
  regular file, an executable, a directory and a symlink. Owners, repositories, refs and
  entries are their names.
\<close>

definition demo_refs :: "string list" where
  "demo_refs = [''refs/heads/main'', ''refs/heads/feature/x'', ''refs/tags/v1.0'']"

definition demo_tree :: "(string \<times> 32 word) list" where
  "demo_tree = [(''README.md'', 0x81A4), (''run.sh'', 0x81ED), (''lib'', 0x4000), (''link'', 0xA000)]"

definition offline :: "bool \<Rightarrow> error + 'a \<Rightarrow> (error + 'a) \<times> bool" where
  "offline s r = (if s then (r, s) else (Inl (ErrOther ''offline''), s))"

definition demo_client :: "(bool, string, string, string, string) Client" where
  "demo_client =
     \<lparr>OpenOwner = (\<lambda>c s. offline s
        (if c = ''alice'' \<or> c = ''Alice'' then Inr ''Alice'' else Inl ErrNotFound)),
      CloseOwner = (\<lambda>ow s. s),
      OpenRepository = (\<lambda>ow c s. offline s
        (if ow = Some ''Alice'' \<and> (c = ''project'' \<or> c = ''Project'') then Inr ''Project''
         else Inl ErrNotFound)),
      CloseRepository = (\<lambda>repo s. s),
      GetOwners = (\<lambda>s. offline s (Inr [''Alice''])),
      GetRepositories = (\<lambda>ow s. offline s (Inr [''Project''])),
      GetRefs = (\<lambda>repo s. offline s (Inr demo_refs)),
      GetRef = (\<lambda>repo name s. offline s
        (if name \<in> set demo_refs then Inr name else Inl ErrNotFound)),
      GetTempRef = (\<lambda>repo name s. offline s
        (if name = ''0123abc'' then Inr name else Inl ErrNotFound)),
      GetTree = (\<lambda>repo rf en s. offline s
        (if en = None then Inr (map fst demo_tree) else Inr [])),
      GetTreeEntry = (\<lambda>repo rf en name s. offline s
        (if en = None \<and> name \<in> set (map fst demo_tree) then Inr name else Inl ErrNotFound)),
      GetModule = (\<lambda>repo rf path recur s. (([], Some ErrNotFound), s)),
      OwnerName = (\<lambda>ow. ow),
      RepositoryName = (\<lambda>repo. repo),
      RefName = (\<lambda>rf. rf),
      RefTreeTime = (\<lambda>rf. 1600000000),
      EntryName = (\<lambda>en. en),
      EntryMode = (\<lambda>en. case map_of demo_tree en of None \<Rightarrow> 0x81A4 | Some m \<Rightarrow> m),
      EntrySize = (\<lambda>en. 100),
      EntryTarget = (\<lambda>en. if en = ''link'' then ''README.md'' else [])\<rparr>"

text \<open>A file system over the small provider with one handle, 0, bound to a given
  obstack; and the names that a \<open>Readdir\<close> has passed to \<open>fill\<close>, with its \<open>errc\<close>.\<close>

definition demo_fs ::
  "(string, string, string, string) obstack \<Rightarrow> (bool, string, string, string, string) hubfs" where
  "demo_fs obs = (new demo_client ''/'')\<lparr>openmap := [0 \<mapsto> Some obs], fh := 1\<rparr>"

definition listing ::
  "(int \<times> dirent list \<times> ('s, 'o, 'r, 'f, 'e) world) option \<Rightarrow> (int \<times> string list) option" where
  "listing r = map_option (\<lambda>(errc, out, w). (errc, map fst out)) r"

text \<open>
  The invariant of the loop of \<open>path.Clean\<close>: the buffer has no two slashes in a row and
  does not end with a slash, but for the single leading slash of a rooted path; \<open>dotdot\<close>
  is 1 for a rooted path and otherwise 0 or the index after a \<open>..\<close> element.
\<close>

definition clean_inv :: "bool \<Rightarrow> string \<Rightarrow> nat \<Rightarrow> bool" where
  "clean_inv rooted out dotdot =
     (no_double_slash out \<and>
      (if rooted then dotdot = 1 \<and> 1 \<le> length out \<and> (length out = 1 \<or> last out \<noteq> CHR ''/'')
       else (out = [] \<or> last out \<noteq> CHR ''/'') \<and> dotdot \<le> length out
            \<and> (dotdot = 0 \<or> out ! (dotdot - 1) \<noteq> CHR ''/'')))"

definition clean_result :: "string \<Rightarrow> bool" where
  "clean_result out = (no_double_slash out \<and> (length out \<le> 1 \<or> last out \<noteq> CHR ''/''))"

section \<open>Properties of the string functions\<close>

lemma TrimPrefix_append: "TrimPrefix (p @ s) p = s"
  by (simp add: TrimPrefix_def HasPrefix_def)

lemma ReplaceAll_inverse:
  "b \<notin> set s \<Longrightarrow> ReplaceAll (ReplaceAll s a b) b a = s"
  by (induction s) (auto simp: ReplaceAll_def)

lemma append_neq_self: "p \<noteq> [] \<Longrightarrow> p @ d \<noteq> d"
  by simp

section \<open>The tokenizer: cleaned paths have no empty component\<close>

lemma nds_Cons:
  "no_double_slash (a # t) \<longleftrightarrow>
     no_double_slash t \<and> (t = [] \<or> a \<noteq> CHR ''/'' \<or> hd t \<noteq> CHR ''/'')"
  by (cases t) auto

lemma nds_append:
  "no_double_slash (s @ t) \<longleftrightarrow>
     no_double_slash s \<and> no_double_slash t \<and> (s = [] \<or> t = [] \<or> last s \<noteq> CHR ''/'' \<or> hd t \<noteq> CHR ''/'')"
  by (induction s) (auto simp: nds_Cons hd_append)

lemma nds_take: "no_double_slash s \<Longrightarrow> no_double_slash (take n s)"
  using nds_append [of "take n s" "drop n s"] by simp

lemma nds_nth: "no_double_slash s \<Longrightarrow> Suc i < length s \<Longrightarrow> s ! Suc i = CHR ''/'' \<Longrightarrow> s ! i \<noteq> CHR ''/''"
proof (induction s arbitrary: i rule: no_double_slash.induct)
  case (1 a b s)
  then show ?case by (cases i) auto
qed auto

lemma nds_no_slash: "CHR ''/'' \<notin> set s \<Longrightarrow> no_double_slash s"
  by (induction s rule: no_double_slash.induct) auto

lemma backtrack_bounds:
  "dotdot \<le> w \<Longrightarrow> dotdot \<le> backtrack dotdot out w \<and> backtrack dotdot out w \<le> w
     \<and> (backtrack dotdot out w = dotdot \<or> out ! (backtrack dotdot out w) = CHR ''/'')"
proof (induction dotdot out w rule: backtrack.induct)
  case (1 dotdot out w)
  show ?case
  proof (cases "w > dotdot \<and> out ! w \<noteq> CHR ''/''")
    case True
    then have "dotdot \<le> w - 1" by arith
    from "1.IH" [OF True this] True show ?thesis
      by (subst (1 2 3 4) backtrack.simps) auto
  next
    case False
    with "1.prems" show ?thesis by (subst (1 2 3 4) backtrack.simps) auto
  qed
qed


lemma clean_inv_backtrack:
  assumes inv: "clean_inv rooted out dotdot" and gt: "length out > dotdot"
  shows "clean_inv rooted (take (backtrack dotdot out (length out - 1)) out) dotdot"
proof -
  define w where "w = backtrack dotdot out (length out - 1)"
  from gt have "dotdot \<le> length out - 1" by arith
  from backtrack_bounds [OF this, of out] have
    b: "dotdot \<le> w" "w \<le> length out - 1" "w = dotdot \<or> out ! w = CHR ''/''"
    by (simp_all add: w_def)
  from b gt have wl: "w < length out" by arith
  have nds: "no_double_slash out" using inv by (simp add: clean_inv_def)
  have len: "length (take w out) = w" using wl by simp
  have lst: "0 < w \<Longrightarrow> last (take w out) = out ! (w - 1)"
  proof -
    assume w0: "0 < w"
    then have "take w out \<noteq> []" using wl by auto
    then have "last (take w out) = take w out ! (length (take w out) - 1)"
      by (rule last_conv_nth)
    also have "\<dots> = out ! (w - 1)" using w0 wl by simp
    finally show ?thesis .
  qed
  have sl: "0 < w \<Longrightarrow> out ! w = CHR ''/'' \<Longrightarrow> out ! (w - 1) \<noteq> CHR ''/''"
    using nds_nth [OF nds, of "w - 1"] wl by simp
  have nth: "0 < dotdot \<Longrightarrow> take w out ! (dotdot - 1) = out ! (dotdot - 1)"
    using b(1) by simp
  have "clean_inv rooted (take w out) dotdot"
  proof (cases rooted)
    case True
    with inv have d: "dotdot = 1" by (simp add: clean_inv_def)
    with b have w1: "1 \<le> w" by simp
    have "w = 1 \<or> last (take w out) \<noteq> CHR ''/''"
      using b(3) d lst sl w1 by auto
    then show ?thesis
      unfolding clean_inv_def using True d w1 len nds_take [OF nds] by simp
  next
    case False
    with inv have d: "dotdot = 0 \<or> out ! (dotdot - 1) \<noteq> CHR ''/''"
      by (simp add: clean_inv_def)
    have "w = 0 \<or> last (take w out) \<noteq> CHR ''/''"
      using b(1,3) d lst sl by (cases "w = 0") auto
    moreover have "dotdot = 0 \<or> take w out ! (dotdot - 1) \<noteq> CHR ''/''"
      using d nth by auto
    ultimately show ?thesis
      unfolding clean_inv_def using False len b(1) nds_take [OF nds] by auto
  qed
  then show ?thesis by (simp only: w_def)
qed

lemma clean_inv_dotdot:
  assumes inv: "clean_inv False out dotdot"
  defines "out' \<equiv> (if length out > 0 then out @ ''/'' else out) @ ''..''"
  shows "clean_inv False out' (length out')"
proof -
  have nds: "no_double_slash out" and l: "out = [] \<or> last out \<noteq> CHR ''/''"
    using inv by (simp_all add: clean_inv_def)
  have "no_double_slash out'"
    unfolding out'_def using nds l by (auto simp: nds_append)
  moreover have "last out' = CHR ''.''" "out' \<noteq> []" by (simp_all add: out'_def)
  moreover have "out' ! (length out' - 1) = CHR ''.''"
    using \<open>last out' = CHR ''.''\<close> \<open>out' \<noteq> []\<close> by (simp add: last_conv_nth)
  ultimately show ?thesis by (simp add: clean_inv_def)
qed

lemma clean_inv_element:
  assumes inv: "clean_inv rooted out dotdot" and c: "c \<noteq> CHR ''/''"
  defines "out' \<equiv> (if rooted \<and> length out \<noteq> 1 \<or> \<not> rooted \<and> length out \<noteq> 0
                     then out @ ''/'' else out)"
  shows "clean_inv rooted (out' @ takeWhile (\<lambda>x. x \<noteq> CHR ''/'') (c # cs)) dotdot"
proof -
  define el where "el = takeWhile (\<lambda>x. x \<noteq> CHR ''/'') (c # cs)"
  have el: "el \<noteq> []" "hd el \<noteq> CHR ''/''" "last el \<noteq> CHR ''/''" "no_double_slash el"
  proof -
    show ne: "el \<noteq> []" and "hd el \<noteq> CHR ''/''" using c by (simp_all add: el_def)
    have all: "CHR ''/'' \<notin> set el" unfolding el_def by (auto dest: set_takeWhileD)
    then show "no_double_slash el" by (rule nds_no_slash)
    from all ne show "last el \<noteq> CHR ''/''" using last_in_set by metis
  qed
  have nds: "no_double_slash out" using inv by (simp add: clean_inv_def)
  show ?thesis
  proof (cases rooted)
    case True
    with inv have i: "dotdot = 1" "1 \<le> length out" "length out = 1 \<or> last out \<noteq> CHR ''/''"
      by (simp_all add: clean_inv_def)
    have "no_double_slash (out' @ el)"
      unfolding out'_def using True nds el i by (auto simp: nds_append)
    moreover have "last (out' @ el) \<noteq> CHR ''/''" using el by simp
    moreover have "1 \<le> length (out' @ el)" using i by (simp add: out'_def)
    ultimately show ?thesis using True i unfolding clean_inv_def el_def [symmetric] by simp
  next
    case False
    with inv have i: "out = [] \<or> last out \<noteq> CHR ''/''" "dotdot \<le> length out"
      "dotdot = 0 \<or> out ! (dotdot - 1) \<noteq> CHR ''/''"
      by (simp_all add: clean_inv_def)
    have "no_double_slash (out' @ el)"
      unfolding out'_def using False nds el i by (auto simp: nds_append)
    moreover have "last (out' @ el) \<noteq> CHR ''/''" using el by simp
    moreover have "dotdot \<le> length (out' @ el)" using i by (simp add: out'_def)
    moreover have "dotdot = 0 \<or> (out' @ el) ! (dotdot - 1) \<noteq> CHR ''/''"
    proof (cases "dotdot = 0")
      case False
      then have "dotdot - 1 < length out" using i(2) by arith
      then have "(out' @ el) ! (dotdot - 1) = out ! (dotdot - 1)"
        by (simp add: out'_def nth_append)
      with i(3) False show ?thesis by simp
    qed simp
    ultimately show ?thesis using False unfolding clean_inv_def el_def [symmetric] by simp
  qed
qed

lemma clean_inv_result: "clean_inv rooted out dotdot \<Longrightarrow> clean_result out"
  by (auto simp: clean_inv_def clean_result_def split: if_splits)

lemma clean_loop_result:
  "clean_inv rooted out dotdot \<Longrightarrow> clean_result (clean_loop rooted p out dotdot)"
proof (induction rooted p out dotdot rule: clean_loop.induct)
  case (1 rooted out dotdot)
  then show ?case by (simp add: clean_inv_result)
next
  case (2 rooted c cs out dotdot)
  note inv = "2.prems"
  show ?case
  proof (cases "c = CHR ''/''")
    case True
    from "2.IH"(1) [OF True inv] show ?thesis
      by (subst clean_loop.simps, subst if_P [OF True])
  next
    case ns: False
    show ?thesis
    proof (cases "c = CHR ''.'' \<and> (cs = [] \<or> hd cs = CHR ''/'')")
      case True
      from "2.IH"(2) [OF ns True inv] show ?thesis
        by (subst clean_loop.simps, subst if_not_P [OF ns], subst if_P [OF True])
    next
      case nd: False
      show ?thesis
      proof (cases "c = CHR ''.'' \<and> hd cs = CHR ''.'' \<and> (tl cs = [] \<or> hd (tl cs) = CHR ''/'')")
        case dd: True
        show ?thesis
        proof (cases "length out > dotdot")
          case True
          from "2.IH"(3) [OF ns nd dd True clean_inv_backtrack [OF inv True]]
          show ?thesis
            by (subst clean_loop.simps, subst if_not_P [OF ns], subst if_not_P [OF nd],
                subst if_P [OF dd], subst if_P [OF True])
        next
          case le: False
          show ?thesis
          proof (cases rooted)
            case True
            then have nr: "\<not> \<not> rooted" by simp
            from "2.IH"(5) [OF ns nd dd le nr inv]
            show ?thesis
              by (subst clean_loop.simps, subst if_not_P [OF ns], subst if_not_P [OF nd],
                  subst if_P [OF dd], subst if_not_P [OF le], subst if_not_P [OF nr])
          next
            case False
            with inv have "clean_inv False out dotdot" by simp
            from "2.IH"(4) [OF ns nd dd le False refl] clean_inv_dotdot [OF this] False
            have "clean_result (clean_loop rooted (tl cs)
                    ((if length out > 0 then out @ ''/'' else out) @ ''..'')
                    (length ((if length out > 0 then out @ ''/'' else out) @ ''..'')))"
              by simp
            then show ?thesis
              by (subst clean_loop.simps, subst if_not_P [OF ns], subst if_not_P [OF nd],
                  subst if_P [OF dd], subst if_not_P [OF le], subst if_P [OF False],
                  unfold Let_def)
          qed
        qed
      next
        case el: False
        from "2.IH"(6) [OF ns nd el refl clean_inv_element [OF inv ns]]
        show ?thesis
          by (subst clean_loop.simps, subst if_not_P [OF ns], subst if_not_P [OF nd],
              subst if_not_P [OF el], unfold Let_def)
      qed
    qed
  qed
qed


lemma Split_not_Nil: "Split s sep \<noteq> []"
  by (induction s) (auto split: list.splits)

lemma Split_pieces:
  "no_double_slash s \<Longrightarrow> s \<noteq> [] \<Longrightarrow> last s \<noteq> CHR ''/'' \<Longrightarrow>
   [] \<notin> set (tl (Split s CHR ''/'')) \<and> (hd s \<noteq> CHR ''/'' \<longrightarrow> [] \<notin> set (Split s CHR ''/''))"
proof (induction s)
  case Nil
  then show ?case by simp
next
  case (Cons c cs)
  show ?case
  proof (cases "cs = []")
    case True
    with Cons.prems show ?thesis by simp
  next
    case False
    with Cons.prems have p: "no_double_slash cs" "last cs \<noteq> CHR ''/''"
      by (cases cs; simp)+
    from Cons.IH [OF p(1) False p(2)] have
      ih: "[] \<notin> set (tl (Split cs CHR ''/''))"
          "hd cs \<noteq> CHR ''/'' \<Longrightarrow> [] \<notin> set (Split cs CHR ''/'')"
      by simp_all
    show ?thesis
    proof (cases "c = CHR ''/''")
      case True
      with Cons.prems False have "hd cs \<noteq> CHR ''/''" by (cases cs) auto
      with ih(2) True show ?thesis by simp
    next
      case False
      obtain p ps where sp: "Split cs CHR ''/'' = p # ps"
        using Split_not_Nil [of cs] by (cases "Split cs CHR ''/''") auto
      with ih(1) False show ?thesis by simp
    qed
  qed
qed

lemma split_no_empty: "clean_result out \<Longrightarrow> [] \<notin> set (split out)"
proof -
  assume r: "clean_result out"
  show ?thesis
  proof (cases "length out \<le> 1")
    case True
    then have "out = [] \<or> (\<exists>x. out = [x])"
      by (cases out; cases "tl out") auto
    then show ?thesis by (auto simp: split_def Let_def split: if_splits)
  next
    case False
    with r have "no_double_slash out" "out \<noteq> []" "last out \<noteq> CHR ''/''"
      by (auto simp: clean_result_def)
    from Split_pieces [OF this] show ?thesis
      by (simp add: split_def Let_def)
  qed
qed

lemma Clean_result: "clean_result (Clean path)"
proof -
  have a: "clean_result ''.''" by (simp add: clean_result_def)
  have b: "clean_result (clean_loop True p ''/'' 1)" for p
    by (rule clean_loop_result) (simp add: clean_inv_def)
  have c: "clean_result (clean_loop False p [] 0)" for p
    by (rule clean_loop_result) (simp add: clean_inv_def)
  show ?thesis unfolding Clean_def Let_def using a b c by simp
qed

lemma Join_result: "clean_result (Join elem)"
proof (cases "dropWhile (\<lambda>e. e = []) elem")
  case Nil
  have "clean_result []" by (simp add: clean_result_def)
  then show ?thesis by (simp only: Join_def Nil list.case)
next
  case (Cons e es)
  from Clean_result show ?thesis by (simp only: Join_def Cons list.case)
qed

text \<open>
  C2, amended. \<open>split\<close> of the root path is the empty sequence, and so are the tokens of
  the input \<open>/\<close> under the mount prefix \<open>/\<close> or the empty prefix. \<open>path.Join\<close> cleans the
  joined path, so no token is ever empty, whatever the prefix and the path: a trailing
  slash leaves no empty token behind.
\<close>

theorem tokens_no_empty_token:
  "split ''/'' = [] \<and> tokens ''/'' ''/'' = [] \<and> tokens [] ''/'' = []
   \<and> [] \<notin> set (tokens pfx path)"
proof -
  have "[] \<notin> set (tokens pfx path)"
    unfolding tokens_def by (rule split_no_empty) (rule Join_result)
  moreover have "split ''/'' = []" by (simp add: split_def)
  moreover have "tokens ''/'' ''/'' = []" "tokens [] ''/'' = []"
    by (simp_all add: tokens_def Join_def Clean_def split_def)
  ultimately show ?thesis by simp
qed

text \<open>
  C2, as stated, fails: the tokens of \<open>/a/\<close> are the ones of \<open>/a\<close>; the trailing empty
  component is not kept.
\<close>

theorem tokens_trailing_slash_counterexample:
  "tokens ''/'' ''/a/'' = [''a'']"
  by (simp add: tokens_def Join_def Clean_def split_def)

section \<open>File attributes: the mode of a regular file\<close>

lemma fuseStat_default_mode:
  "mode AND S_IFMT \<noteq> S_IFDIR \<Longrightarrow> mode AND S_IFMT \<noteq> S_IFLNK \<Longrightarrow>
   mode AND S_IFMT \<noteq> S_IFSUBMODULE \<Longrightarrow> Mode (fuseStat mode sz t) = S_IFREG OR 493"
  by (simp add: fuseStat_def S_IFREG_def)

text \<open>
  C1. The claim: an entry that is neither a directory, a symlink nor a submodule gets
  the mode \<open>S_IFREG | 0644\<close> when its executable bit (octal 0100, 64) is clear, and
  \<open>S_IFREG | 0755\<close> when it is set. The code does not do that: the git mode octal 0100644
  (33188) of a regular file that is not executable is projected to \<open>S_IFREG | 0755\<close>,
  which differs from \<open>S_IFREG | 0644\<close>. The test of \<open>fuseStat\<close> reads the mode it has just
  overwritten, where the read bit 0400 is always set.
\<close>

theorem fuseStat_nonexec_file_0755:
  "33188 AND S_IFMT = S_IFREG \<and> 33188 AND (64 :: 32 word) = 0
   \<and> Mode (fuseStat 33188 sz t) = S_IFREG OR 493
   \<and> S_IFREG OR 493 \<noteq> S_IFREG OR 420"
  by (simp add: fuseStat_def S_IFMT_def S_IFDIR_def S_IFLNK_def S_IFREG_def S_IFSUBMODULE_def)

section \<open>Ref names as file names: encoding after decoding\<close>

lemma encode_ref_heads: "encode_ref (''refs/heads/'' @ d) = ReplaceAll d CHR ''/'' CHR '' ''"
proof -
  have a: "TrimPrefix (''refs/heads/'' @ d) ''refs/heads/'' = d" by (rule TrimPrefix_append)
  have c: "''refs/heads/'' @ d \<noteq> d" by (rule append_neq_self) simp
  show ?thesis unfolding encode_ref_def Let_def a using c by (simp only: if_False)
qed

lemma encode_ref_tags: "encode_ref (''refs/tags/'' @ d) = ReplaceAll d CHR ''/'' CHR '' ''"
proof -
  have a: "TrimPrefix (''refs/tags/'' @ d) ''refs/heads/'' = ''refs/tags/'' @ d"
    by (simp add: TrimPrefix_def HasPrefix_def)
  have b: "TrimPrefix (''refs/tags/'' @ d) ''refs/tags/'' = d" by (rule TrimPrefix_append)
  have c: "''refs/tags/'' @ d \<noteq> d" by (rule append_neq_self) simp
  show ?thesis unfolding encode_ref_def Let_def a b using c by (simp only: if_False if_True refl)
qed

lemma encode_ref_plain:
  "\<not> HasPrefix r ''refs/heads/'' \<Longrightarrow> \<not> HasPrefix r ''refs/tags/'' \<Longrightarrow>
   encode_ref r = ReplaceAll r CHR ''/'' CHR '' ''"
  by (simp add: encode_ref_def TrimPrefix_def)

text \<open>
  C6, as stated, fails: the file name \<open>refs heads main\<close> contains no slash, it decodes to
  \<open>refs/heads/main\<close>, and encoding strips the prefix: the result is \<open>main\<close>.
\<close>

theorem encode_decode_counterexample:
  "CHR ''/'' \<notin> set ''refs heads main'' \<and> encode_ref (decode_ref ''refs heads main'') = ''main''
   \<and> ''main'' \<noteq> ''refs heads main''"
  by (simp add: encode_ref_def decode_ref_def ReplaceAll_def TrimPrefix_def HasPrefix_def)

text \<open>
  C6, amended. For every file name \<open>c\<close> without a slash, encoding the full ref name that
  depth 2 looks up for it, \<open>refs/heads/\<close> or \<open>refs/tags/\<close> followed by the decoded name,
  gives \<open>c\<close> back; and encoding the decoded name itself gives \<open>c\<close> back when the decoded
  name starts with neither \<open>refs/heads/\<close> nor \<open>refs/tags/\<close>.
\<close>

theorem encode_decode_full_name:
  assumes "CHR ''/'' \<notin> set c"
  shows "encode_ref (''refs/heads/'' @ decode_ref c) = c
       \<and> encode_ref (''refs/tags/'' @ decode_ref c) = c
       \<and> (\<not> HasPrefix (decode_ref c) ''refs/heads/'' \<and> \<not> HasPrefix (decode_ref c) ''refs/tags/''
            \<longrightarrow> encode_ref (decode_ref c) = c)"
proof -
  have r: "ReplaceAll (decode_ref c) CHR ''/'' CHR '' '' = c"
    unfolding decode_ref_def using assms by (rule ReplaceAll_inverse)
  show ?thesis
    unfolding encode_ref_heads encode_ref_tags r
    using encode_ref_plain [of "decode_ref c"] r by simp
qed

theorem encode_decode_full_name_witness:
  "CHR ''/'' \<notin> set ''feature x''
   \<and> encode_ref (''refs/heads/'' @ decode_ref ''feature x'') = ''feature x''
   \<and> encode_ref (''refs/tags/'' @ decode_ref ''feature x'') = ''feature x''
   \<and> \<not> HasPrefix (decode_ref ''feature x'') ''refs/heads/''
   \<and> \<not> HasPrefix (decode_ref ''feature x'') ''refs/tags/''
   \<and> encode_ref (decode_ref ''feature x'') = ''feature x''"
proof -
  have h: "CHR ''/'' \<notin> set ''feature x''" by simp
  have p: "\<not> HasPrefix (decode_ref ''feature x'') ''refs/heads/''"
          "\<not> HasPrefix (decode_ref ''feature x'') ''refs/tags/''"
    by (simp_all add: HasPrefix_def decode_ref_def ReplaceAll_def)
  from encode_decode_full_name [OF h] h p show ?thesis by blast
qed

section \<open>Properties of the resolver\<close>

lemma fuseErrc_nonzero: "fuseErrc err \<noteq> 0"
  by (simp add: fuseErrc_def ENOENT_def EIO_def)

lemma open_owners_append:
  "open_owners acc (xs @ ys) = open_owners (open_owners acc xs) ys"
  by (simp add: open_owners_def)

lemma open_repositories_append:
  "open_repositories acc (xs @ ys) = open_repositories (open_repositories acc xs) ys"
  by (simp add: open_repositories_def)

lemma getref_chain_calls:
  "\<exists>r evs s'. getref_chain cl repo c (s, tr) = (r, (s', tr @ evs))
     \<and> open_owners a evs = a \<and> open_repositories b evs = b"
  by (auto simp: getref_chain_def do_GetRef_def do_GetTempRef_def open_owners_def
        open_repositories_def owner_step_def repository_step_def
      split: prod.splits sum.splits error.splits)

lemma release_calls:
  "\<exists>evs s'. release cl obs (s, tr) = (s', tr @ evs)
     \<and> open_owners (owners_of obs) evs = [] \<and> open_repositories (repositories_of obs) evs = []"
  by (auto simp: release_def do_CloseOwner_def do_CloseRepository_def open_owners_def
        open_repositories_def owner_step_def repository_step_def owners_of_def repositories_of_def
      split: option.splits)

lemma openex_step_spec:
  assumes "populated i obs"
  shows "\<exists>err obs' lst' evs s'.
           openex_step cl norm i c lst obs (s, tr) = Some (err, obs', lst', (s', tr @ evs))
         \<and> open_owners (owners_of obs) evs = owners_of obs'
         \<and> open_repositories (repositories_of obs) evs = repositories_of obs'
         \<and> (err = None \<longrightarrow> populated (Suc i) obs')
         \<and> length lst' = length lst"
proof -
  consider "i = 0" | "i = 1" | "i = 2" | "3 \<le> i" by arith
  then show ?thesis
  proof cases
    case 1
    with assms show ?thesis
      by (auto simp: openex_step_def do_OpenOwner_def populated_def open_owners_def
            open_repositories_def owner_step_def repository_step_def owners_of_def
            repositories_of_def
          split: prod.splits sum.splits)
  next
    case 2
    with assms show ?thesis
      by (auto simp: openex_step_def do_OpenRepository_def populated_def open_owners_def
            open_repositories_def owner_step_def repository_step_def owners_of_def
            repositories_of_def
          split: prod.splits sum.splits)
  next
    case 3
    with assms obtain repo where repo: "repository obs = Some repo"
      by (auto simp: populated_def)
    from getref_chain_calls [of cl repo "decode_ref c" s tr "owners_of obs" "repositories_of obs"]
    obtain r evs s' where
      g: "getref_chain cl repo (decode_ref c) (s, tr) = (r, (s', tr @ evs))"
         "open_owners (owners_of obs) evs = owners_of obs"
         "open_repositories (repositories_of obs) evs = repositories_of obs"
      by blast
    show ?thesis
      using 3 assms repo g
      by (cases r) (auto simp: openex_step_def populated_def owners_of_def repositories_of_def)
  next
    case 4
    with assms obtain repo where repo: "repository obs = Some repo"
      by (auto simp: populated_def)
    show ?thesis
      using 4 assms repo
      by (auto simp: openex_step_def do_GetTreeEntry_def populated_def open_owners_def
            open_repositories_def owner_step_def repository_step_def owners_of_def
            repositories_of_def
          split: prod.splits sum.splits)
  qed
qed


lemma openex_loop_spec:
  assumes "populated i obs"
  shows "\<exists>errc res lst' evs s'.
           openex_loop cl norm i cs lst obs (s, tr) = Some (errc, res, lst', (s', tr @ evs))
         \<and> length lst' = length lst
         \<and> ((errc \<noteq> 0 \<and> res = None
               \<and> open_owners (owners_of obs) evs = []
               \<and> open_repositories (repositories_of obs) evs = [])
            \<or> (errc = 0 \<and> (\<exists>obs'. res = Some obs' \<and> populated (i + length cs) obs'
               \<and> open_owners (owners_of obs) evs = owners_of obs'
               \<and> open_repositories (repositories_of obs) evs = repositories_of obs')))"
  using assms
proof (induction cs arbitrary: i lst obs s tr)
  case Nil
  then show ?case by (simp add: open_owners_def open_repositories_def)
next
  case (Cons c cs)
  from openex_step_spec [OF Cons.prems, of cl norm c lst s tr]
  obtain err obs1 lst1 evs1 s1 where
    st: "openex_step cl norm i c lst obs (s, tr) = Some (err, obs1, lst1, (s1, tr @ evs1))"
    and oo: "open_owners (owners_of obs) evs1 = owners_of obs1"
    and orp: "open_repositories (repositories_of obs) evs1 = repositories_of obs1"
    and pop: "err = None \<longrightarrow> populated (Suc i) obs1"
    and len: "length lst1 = length lst"
    by blast
  show ?case
  proof (cases err)
    case None
    with pop have p1: "populated (Suc i) obs1" by simp
    from Cons.IH [OF p1, of lst1 s1 "tr @ evs1"]
    obtain errc res lst2 evs2 s2 where
      lp: "openex_loop cl norm (Suc i) cs lst1 obs1 (s1, tr @ evs1)
             = Some (errc, res, lst2, (s2, (tr @ evs1) @ evs2))"
      and len2: "length lst2 = length lst1"
      and alt: "(errc \<noteq> 0 \<and> res = None
               \<and> open_owners (owners_of obs1) evs2 = []
               \<and> open_repositories (repositories_of obs1) evs2 = [])
            \<or> (errc = 0 \<and> (\<exists>obs'. res = Some obs' \<and> populated (Suc i + length cs) obs'
               \<and> open_owners (owners_of obs1) evs2 = owners_of obs'
               \<and> open_repositories (repositories_of obs1) evs2 = repositories_of obs'))"
      by blast
    have "openex_loop cl norm i (c # cs) lst obs (s, tr)
            = Some (errc, res, lst2, (s2, tr @ (evs1 @ evs2)))"
      using st lp None by simp
    moreover have "length lst2 = length lst" using len len2 by simp
    moreover have "open_owners (owners_of obs) (evs1 @ evs2) = open_owners (owners_of obs1) evs2"
      by (simp add: open_owners_append oo)
    moreover have "open_repositories (repositories_of obs) (evs1 @ evs2)
                     = open_repositories (repositories_of obs1) evs2"
      by (simp add: open_repositories_append orp)
    ultimately show ?thesis using alt by (intro exI [of _ errc] exI [of _ res] exI [of _ lst2]
          exI [of _ "evs1 @ evs2"] exI [of _ s2]) auto
  next
    case (Some e)
    from release_calls [of cl obs1 s1 "tr @ evs1"]
    obtain evs2 s2 where
      rl: "release cl obs1 (s1, tr @ evs1) = (s2, (tr @ evs1) @ evs2)"
      and ro: "open_owners (owners_of obs1) evs2 = []"
      and rr: "open_repositories (repositories_of obs1) evs2 = []"
      by blast
    have "openex_loop cl norm i (c # cs) lst obs (s, tr)
            = Some (fuseErrc e, None, lst1, (s2, tr @ (evs1 @ evs2)))"
      using st rl Some by simp
    moreover have "open_owners (owners_of obs) (evs1 @ evs2) = []"
      by (simp add: open_owners_append oo ro)
    moreover have "open_repositories (repositories_of obs) (evs1 @ evs2) = []"
      by (simp add: open_repositories_append orp rr)
    ultimately show ?thesis using len fuseErrc_nonzero [of e]
      by (intro exI [of _ "fuseErrc e"] exI [of _ None] exI [of _ lst1]
          exI [of _ "evs1 @ evs2"] exI [of _ s2]) auto
  qed
qed

lemma populated_empty: "populated 0 empty_obstack"
  by (simp add: populated_def empty_obstack_def)





text \<open>
  C5. When the depth-0 token of a path contains a dot or is \<open>HEAD\<close>, \<open>openex\<close> returns
  \<open>-ENOENT\<close> and no obstack, and the world it returns is the world it was given: the
  provider's state is untouched and no call was recorded, whatever the provider is.
\<close>

theorem openex_rejects_dot_and_HEAD:
  assumes "tokens (prefix fs) path = c # cs" and "CHR ''.'' \<in> set c \<or> c = ''HEAD''"
  shows "openex fs path norm w = Some (- ENOENT, None, c # cs, w)"
proof -
  have st: "openex_step (client fs) norm 0 c (c # cs) empty_obstack w
              = Some (Some ErrNotFound, empty_obstack, c # cs, w)"
    using assms(2) by (auto simp: openex_step_def empty_obstack_def)
  have rl: "release (client fs) empty_obstack w = w"
    by (simp add: release_def empty_obstack_def)
  show ?thesis
    using assms(1) st rl by (simp add: openex_def tokens_def fuseErrc_def)
qed

text \<open>The provider of this instance would open any owner, \<open>.git\<close> included; it is not
  asked.\<close>

theorem openex_rejects_dot_and_HEAD_witness:
  "tokens (prefix (new (demo_client\<lparr>OpenOwner := (\<lambda>c s. (Inr c, s))\<rparr>) ''/'')) ''/.git/config''
     = [''.git'', ''config'']
   \<and> (CHR ''.'' \<in> set ''.git'' \<or> ''.git'' = ''HEAD'')
   \<and> openex (new (demo_client\<lparr>OpenOwner := (\<lambda>c s. (Inr c, s))\<rparr>) ''/'') ''/.git/config'' True
        (True, [])
       = Some (- ENOENT, None, [''.git'', ''config''], (True, []))"
proof -
  have t: "tokens (prefix (new (demo_client\<lparr>OpenOwner := (\<lambda>c s. (Inr c, s))\<rparr>) ''/''))
             ''/.git/config'' = [''.git'', ''config'']"
    by code_simp
  have d: "CHR ''.'' \<in> set ''.git'' \<or> ''.git'' = ''HEAD''" by simp
  from openex_rejects_dot_and_HEAD [OF t d, of True "(True, [])"] t d show ?thesis by simp
qed












lemma fallback_calls:
  assumes "GetRef cl repo hn s = (r1, s1)"
    and "GetRef cl repo tn s1 = (r2, s2)"
    and "GetTempRef cl repo c s2 = (r3, s3)"
  shows "(case do_GetRef cl repo hn (s, tr) of
            (Inl ErrNotFound, w) \<Rightarrow>
              (case do_GetRef cl repo tn w of
                 (Inl ErrNotFound, w) \<Rightarrow> do_GetTempRef cl repo c w
               | (r, w) \<Rightarrow> (r, w))
          | (r, w) \<Rightarrow> (r, w)) =
         (if r1 \<noteq> Inl ErrNotFound then (r1, (s1, tr @ [GetRef_call repo hn]))
          else if r2 \<noteq> Inl ErrNotFound then
            (r2, (s2, tr @ [GetRef_call repo hn, GetRef_call repo tn]))
          else (r3, (s3, tr @ [GetRef_call repo hn, GetRef_call repo tn, GetTempRef_call repo c])))"
proof -
  have a: "do_GetRef cl repo hn (s, tr) = (r1, (s1, tr @ [GetRef_call repo hn]))"
    using assms(1) by (simp add: do_GetRef_def)
  have b: "do_GetRef cl repo tn (s1, tr @ [GetRef_call repo hn])
             = (r2, (s2, tr @ [GetRef_call repo hn, GetRef_call repo tn]))"
    using assms(2) by (simp add: do_GetRef_def)
  have c: "do_GetTempRef cl repo c (s2, tr @ [GetRef_call repo hn, GetRef_call repo tn])
             = (r3, (s3, tr @ [GetRef_call repo hn, GetRef_call repo tn, GetTempRef_call repo c]))"
    using assms(3) by (simp add: do_GetTempRef_def)
  show ?thesis
  proof (cases "r1 = Inl ErrNotFound")
    case r1: True
    show ?thesis
    proof (cases "r2 = Inl ErrNotFound")
      case True
      with r1 show ?thesis by (simp add: a b c)
    next
      case False
      with r1 show ?thesis by (simp add: a b split: sum.splits error.splits)
    qed
  next
    case False
    then show ?thesis by (simp add: a split: sum.splits error.splits)
  qed
qed

lemma openex_step_depth2:
  assumes "repository obs = Some repo"
    and "getref_chain cl repo (decode_ref c) w = (r, w')"
  shows "\<exists>obs' lst'. openex_step cl norm 2 c lst obs w = Some (result_error r, obs', lst', w')
           \<and> ref obs' = result_value r"
  using assms by (cases r) (simp_all add: openex_step_def result_error_def result_value_def)

text \<open>
  C9. At depth 2, with \<open>r1\<close>, \<open>r2\<close> and \<open>r3\<close> what the provider answers to
  \<open>GetRef("refs/heads/"+c)\<close>, then \<open>GetRef("refs/tags/"+c)\<close>, then \<open>GetTempRef(c)\<close> for the
  decoded token \<open>c\<close>: when \<open>r1\<close> is not \<open>ErrNotFound\<close> the only call is the first and its
  result is the result of the step; when it is, the second call is made, and when \<open>r2\<close> is
  not \<open>ErrNotFound\<close> it is the result; when it is too, \<open>GetTempRef\<close> is called and its
  result is the result. A result that is a ref is stored in the obstack with no error.
\<close>

theorem depth2_fallback_chain:
  assumes "repository obs = Some repo"
    and "GetRef cl repo (''refs/heads/'' @ decode_ref c) s = (r1, s1)"
    and "GetRef cl repo (''refs/tags/'' @ decode_ref c) s1 = (r2, s2)"
    and "GetTempRef cl repo (decode_ref c) s2 = (r3, s3)"
  shows "\<exists>obs' lst'.
     openex_step cl norm 2 c lst obs (s, tr) =
       (if r1 \<noteq> Inl ErrNotFound then
          Some (result_error r1, obs', lst',
                (s1, tr @ [GetRef_call repo (''refs/heads/'' @ decode_ref c)]))
        else if r2 \<noteq> Inl ErrNotFound then
          Some (result_error r2, obs', lst',
                (s2, tr @ [GetRef_call repo (''refs/heads/'' @ decode_ref c),
                           GetRef_call repo (''refs/tags/'' @ decode_ref c)]))
        else
          Some (result_error r3, obs', lst',
                (s3, tr @ [GetRef_call repo (''refs/heads/'' @ decode_ref c),
                           GetRef_call repo (''refs/tags/'' @ decode_ref c),
                           GetTempRef_call repo (decode_ref c)])))
     \<and> ref obs' = result_value (if r1 \<noteq> Inl ErrNotFound then r1
                                 else if r2 \<noteq> Inl ErrNotFound then r2 else r3)"
proof -
  define hn where "hn = ''refs/heads/'' @ decode_ref c"
  define tn where "tn = ''refs/tags/'' @ decode_ref c"
  note calls = fallback_calls [OF assms(2,3,4), of tr, folded getref_chain_def hn_def tn_def]
  consider (heads) "r1 \<noteq> Inl ErrNotFound"
    | (tags) "r1 = Inl ErrNotFound" "r2 \<noteq> Inl ErrNotFound"
    | (temp) "r1 = Inl ErrNotFound" "r2 = Inl ErrNotFound" by blast
  then show ?thesis
  proof cases
    case heads
    with calls have "getref_chain cl repo (decode_ref c) (s, tr)
                       = (r1, (s1, tr @ [GetRef_call repo hn]))" by simp
    from openex_step_depth2 [OF assms(1) this] heads show ?thesis
      unfolding hn_def by simp
  next
    case tags
    with calls have "getref_chain cl repo (decode_ref c) (s, tr)
                       = (r2, (s2, tr @ [GetRef_call repo hn, GetRef_call repo tn]))" by simp
    from openex_step_depth2 [OF assms(1) this] tags show ?thesis
      unfolding hn_def tn_def by simp
  next
    case temp
    with calls have "getref_chain cl repo (decode_ref c) (s, tr)
                       = (r3, (s3, tr @ [GetRef_call repo hn, GetRef_call repo tn,
                                         GetTempRef_call repo (decode_ref c)]))" by simp
    from openex_step_depth2 [OF assms(1) this] temp show ?thesis
      unfolding hn_def tn_def by simp
  qed
qed

text \<open>A branch, a tag, a temporary ref, and a provider that is not reachable.\<close>

theorem depth2_fallback_chain_witness:
  "(\<exists>obs' lst'.
      openex_step demo_client True 2 ''feature x'' [''Alice'', ''Project'', ''feature x'']
        \<lparr>owner = Some ''Alice'', repository = Some ''Project'', ref = None, entry = None\<rparr>
        (True, [])
      = Some (None, obs', lst', (True, [GetRef_call ''Project'' ''refs/heads/feature/x'']))
      \<and> ref obs' = Some ''refs/heads/feature/x'')
   \<and> (\<exists>obs' lst'.
      openex_step demo_client True 2 ''v1.0'' [''Alice'', ''Project'', ''v1.0'']
        \<lparr>owner = Some ''Alice'', repository = Some ''Project'', ref = None, entry = None\<rparr>
        (True, [])
      = Some (None, obs', lst', (True, [GetRef_call ''Project'' ''refs/heads/v1.0'',
                                        GetRef_call ''Project'' ''refs/tags/v1.0'']))
      \<and> ref obs' = Some ''refs/tags/v1.0'')
   \<and> (\<exists>obs' lst'.
      openex_step demo_client True 2 ''0123abc'' [''Alice'', ''Project'', ''0123abc'']
        \<lparr>owner = Some ''Alice'', repository = Some ''Project'', ref = None, entry = None\<rparr>
        (True, [])
      = Some (None, obs', lst', (True, [GetRef_call ''Project'' ''refs/heads/0123abc'',
                                        GetRef_call ''Project'' ''refs/tags/0123abc'',
                                        GetTempRef_call ''Project'' ''0123abc'']))
      \<and> ref obs' = Some ''0123abc'')
   \<and> (\<exists>obs' lst'.
      openex_step demo_client True 2 ''main'' [''Alice'', ''Project'', ''main'']
        \<lparr>owner = Some ''Alice'', repository = Some ''Project'', ref = None, entry = None\<rparr>
        (False, [])
      = Some (Some (ErrOther ''offline''), obs', lst',
              (False, [GetRef_call ''Project'' ''refs/heads/main'']))
      \<and> ref obs' = None)"
proof -
  define obs :: "(string, string, string, string) obstack" where
    "obs = \<lparr>owner = Some ''Alice'', repository = Some ''Project'', ref = None, entry = None\<rparr>"
  have r: "repository obs = Some ''Project''" by (simp add: obs_def)
  have d: "decode_ref ''feature x'' = ''feature/x''" "decode_ref ''v1.0'' = ''v1.0''"
    "decode_ref ''0123abc'' = ''0123abc''" "decode_ref ''main'' = ''main''"
    by code_simp+
  have a1: "GetRef demo_client ''Project'' (''refs/heads/'' @ decode_ref ''feature x'') True
              = (Inr ''refs/heads/feature/x'', True)"
    and a2: "GetRef demo_client ''Project'' (''refs/tags/'' @ decode_ref ''feature x'') True
              = (Inl ErrNotFound, True)"
    and a3: "GetTempRef demo_client ''Project'' (decode_ref ''feature x'') True
              = (Inl ErrNotFound, True)"
    by code_simp+
  have b1: "GetRef demo_client ''Project'' (''refs/heads/'' @ decode_ref ''v1.0'') True
              = (Inl ErrNotFound, True)"
    and b2: "GetRef demo_client ''Project'' (''refs/tags/'' @ decode_ref ''v1.0'') True
              = (Inr ''refs/tags/v1.0'', True)"
    and b3: "GetTempRef demo_client ''Project'' (decode_ref ''v1.0'') True
              = (Inl ErrNotFound, True)"
    by code_simp+
  have c1: "GetRef demo_client ''Project'' (''refs/heads/'' @ decode_ref ''0123abc'') True
              = (Inl ErrNotFound, True)"
    and c2: "GetRef demo_client ''Project'' (''refs/tags/'' @ decode_ref ''0123abc'') True
              = (Inl ErrNotFound, True)"
    and c3: "GetTempRef demo_client ''Project'' (decode_ref ''0123abc'') True
              = (Inr ''0123abc'', True)"
    by code_simp+
  have d1: "GetRef demo_client ''Project'' (''refs/heads/'' @ decode_ref ''main'') False
              = (Inl (ErrOther ''offline''), False)"
    and d2: "GetRef demo_client ''Project'' (''refs/tags/'' @ decode_ref ''main'') False
              = (Inl (ErrOther ''offline''), False)"
    and d3: "GetTempRef demo_client ''Project'' (decode_ref ''main'') False
              = (Inl (ErrOther ''offline''), False)"
    by code_simp+
  from depth2_fallback_chain [OF r a1 a2 a3, of True "[''Alice'', ''Project'', ''feature x'']" "[]"]
    depth2_fallback_chain [OF r b1 b2 b3, of True "[''Alice'', ''Project'', ''v1.0'']" "[]"]
    depth2_fallback_chain [OF r c1 c2 c3, of True "[''Alice'', ''Project'', ''0123abc'']" "[]"]
    depth2_fallback_chain [OF r d1 d2 d3, of True "[''Alice'', ''Project'', ''main'']" "[]"]
  show ?thesis
    unfolding d obs_def [symmetric]
    by (simp add: result_error_def result_value_def)
qed

section \<open>Properties of the handle table\<close>

lemma open_spec:
  "\<exists>errc res w'. open fs path w = Some (errc, res, w')
     \<and> ((errc \<noteq> 0 \<and> res = None) \<or> (errc = 0 \<and> (\<exists>obs k. res = Some obs \<and> populated k obs)))"
proof -
  obtain s tr where w: "w = (s, tr)" by (cases w)
  from openex_loop_spec [OF populated_empty, of "client fs" False "tokens (prefix fs) path"
      "tokens (prefix fs) path" s tr]
  obtain errc res lst w1 where
    o: "openex fs path False w = Some (errc, res, lst, w1)"
    and alt: "(errc \<noteq> 0 \<and> res = None)
              \<or> (errc = 0 \<and> (\<exists>obs k. res = Some obs \<and> populated k obs))"
    unfolding openex_def tokens_def Let_def w by blast
  then show ?thesis by (simp add: open_def)
qed

lemma Opendir_spec:
  assumes "table_ok fs"
  shows "\<exists>errc h fs' w'. Opendir fs path w = Some (errc, h, fs', w') \<and> table_ok fs'
           \<and> (if errc = 0 then h = fh fs \<and> fh fs' = fh fs + 1 else fh fs' = fh fs)"
proof -
  from open_spec [of fs path w] obtain errc res w' where
    o: "open fs path w = Some (errc, res, w')"
    and alt: "(errc \<noteq> 0 \<and> res = None)
              \<or> (errc = 0 \<and> (\<exists>obs k. res = Some obs \<and> populated k obs))"
    by blast
  from alt assms show ?thesis
    by (fastforce simp: Opendir_def o table_ok_def)
qed

lemma Open_spec:
  assumes "table_ok fs"
  shows "\<exists>errc h fs' w'. Open fs path flags w = Some (errc, h, fs', w') \<and> table_ok fs'
           \<and> (if errc = 0 then h = fh fs \<and> fh fs' = fh fs + 1 else fh fs' = fh fs)"
proof -
  from open_spec [of fs path w] obtain errc res w' where
    o: "open fs path w = Some (errc, res, w')"
    and alt: "(errc \<noteq> 0 \<and> res = None)
              \<or> (errc = 0 \<and> (\<exists>obs k. res = Some obs \<and> populated k obs))"
    by blast
  from alt assms show ?thesis
    by (fastforce simp: Open_def o table_ok_def)
qed

lemma Releasedir_spec:
  assumes "table_ok fs"
  shows "\<exists>errc fs' w'. Releasedir fs path h w = Some (errc, fs', w') \<and> table_ok fs'
           \<and> fh fs' = fh fs"
  using assms by (fastforce simp: Releasedir_def table_ok_def split: option.splits)

lemma Release_spec:
  assumes "table_ok fs"
  shows "\<exists>errc fs' w'. Release fs path h w = Some (errc, fs', w') \<and> table_ok fs'
           \<and> fh fs' = fh fs"
  using assms by (fastforce simp: Release_def table_ok_def split: option.splits)

lemma run_op_spec:
  assumes "table_ok fs"
  shows "\<exists>hs fs' w'.
     run_op x fs w = Some (hs, fs', w')
     \<and> table_ok fs' \<and> fh fs' = fh fs + of_nat (length hs)
     \<and> (hs = [] \<or> hs = [fh fs])"
proof (cases x)
  case (Op_Open path flags)
  from Open_spec [OF assms, of path flags w] show ?thesis
    unfolding run_op_def Op_Open by (auto split: if_splits)
next
  case (Op_Opendir path)
  from Opendir_spec [OF assms, of path w] show ?thesis
    unfolding run_op_def Op_Opendir by (auto split: if_splits)
next
  case (Op_Release path h)
  from Release_spec [OF assms, of path h w] show ?thesis
    unfolding run_op_def Op_Release by auto
next
  case (Op_Releasedir path h)
  from Releasedir_spec [OF assms, of path h w] show ?thesis
    unfolding run_op_def Op_Releasedir by auto
qed

lemma upt_shift_map: "map (\<lambda>k. f (Suc k)) [0..<n] = map f [Suc 0..<Suc n]"
  by (simp add: map_Suc_upt [symmetric] del: upt_Suc)

lemma run_spec:
  assumes "table_ok fs"
  shows "\<exists>hs fs' w'. run ops fs w = Some (hs, fs', w') \<and> table_ok fs'
           \<and> fh fs' = fh fs + of_nat (length hs)
           \<and> hs = map (\<lambda>k. fh fs + of_nat k) [0..<length hs]"
  using assms
proof (induction ops arbitrary: fs w)
  case Nil
  then show ?case by simp
next
  case (Cons x xs)
  from run_op_spec [OF Cons.prems, where x = x and w = w] obtain hs1 fs1 w1 where
    st: "run_op x fs w = Some (hs1, fs1, w1)"
    and nn: "table_ok fs1" and f1: "fh fs1 = fh fs + of_nat (length hs1)"
    and h1: "hs1 = [] \<or> hs1 = [fh fs]"
    by blast
  from Cons.IH [OF nn, of w1] obtain hs2 fs2 w2 where
    r: "run xs fs1 w1 = Some (hs2, fs2, w2)" and nn2: "table_ok fs2"
    and f2: "fh fs2 = fh fs1 + of_nat (length hs2)"
    and h2: "hs2 = map (\<lambda>k. fh fs1 + of_nat k) [0..<length hs2]"
    by blast
  have run: "run (x # xs) fs w = Some (hs1 @ hs2, fs2, w2)"
    using st r by simp
  have fh: "fh fs2 = fh fs + of_nat (length (hs1 @ hs2))"
    using f1 f2 by simp
  have "hs1 @ hs2 = map (\<lambda>k. fh fs + of_nat k) [0..<length (hs1 @ hs2)]"
  proof (cases "hs1 = []")
    case True
    with f1 h2 show ?thesis by simp
  next
    case False
    with h1 have e: "hs1 = [fh fs]" by simp
    with f1 have f: "fh fs1 = fh fs + 1" by simp
    have "hs2 = map (\<lambda>k. fh fs + of_nat (Suc k)) [0..<length hs2]"
      using h2 f by (simp add: add.assoc)
    also have "\<dots> = map (\<lambda>k. fh fs + of_nat k) [Suc 0..<Suc (length hs2)]"
      by (rule upt_shift_map)
    finally have "hs2 = map (\<lambda>k. fh fs + of_nat k) [Suc 0..<Suc (length hs2)]" .
    then have "hs1 @ hs2 = map (\<lambda>k. fh fs + of_nat k) (0 # [Suc 0..<Suc (length hs2)])"
      using e by simp
    also have "0 # [Suc 0..<Suc (length hs2)] = [0..<Suc (length hs2)]"
      by (simp add: upt_conv_Cons del: upt_Suc)
    finally show ?thesis using e by simp
  qed
  with run nn2 fh show ?case by blast
qed

lemma table_ok_new: "table_ok (new cl pfx)"
  by (simp add: table_ok_def new_def)

lemma word64_of_nat_less:
  "i < j \<Longrightarrow> j < 2 ^ 64 \<Longrightarrow> (of_nat i :: 64 word) < of_nat j"
  by (simp add: word_less_nat_alt unat_of_nat)

lemma handles_increasing:
  assumes "n \<le> 2 ^ 64"
  shows "sorted_wrt (<) (map (of_nat :: nat \<Rightarrow> 64 word) [0..<n])"
proof -
  have "sorted_wrt (\<lambda>i j. (of_nat i :: 64 word) < of_nat j) [0..<n]"
  proof (rule sorted_wrt_mono_rel [where P = "(<)"])
    fix i j assume "i \<in> set [0..<n]" "j \<in> set [0..<n]" "i < j"
    with assms show "(of_nat i :: 64 word) < of_nat j"
      by (intro word64_of_nat_less) auto
  qed simp
  then show ?thesis by (simp add: sorted_wrt_map)
qed

text \<open>
  C4, amended. From a new file system, every sequence of \<open>Open\<close>, \<open>Opendir\<close>, \<open>Release\<close> and
  \<open>Releasedir\<close> calls runs without panic, and the handles that its successful \<open>Open\<close> and
  \<open>Opendir\<close> calls return are 0, 1, 2, ... in order, as 64-bit words, whatever was released
  in between. So they are strictly increasing, and no two are equal, as long as no more
  than \<open>2 ^ 64\<close> handles are issued.
\<close>

theorem handles_count_up_from_zero:
  "\<exists>hs fs' w'. run ops (new cl pfx) w = Some (hs, fs', w')
     \<and> hs = map of_nat [0..<length hs]
     \<and> (length hs \<le> 2 ^ 64 \<longrightarrow> sorted_wrt (<) hs \<and> distinct hs)"
proof -
  from run_spec [OF table_ok_new, of ops cl pfx w] obtain hs fs' w' where
    r: "run ops (new cl pfx) w = Some (hs, fs', w')"
    and h: "hs = map (\<lambda>k. fh (new cl pfx) + of_nat k) [0..<length hs]"
    by blast
  from h have h': "hs = map of_nat [0..<length hs]" by (simp add: new_def)
  have "sorted_wrt (<) hs" if "length hs \<le> 2 ^ 64"
    using handles_increasing [OF that] h' by simp
  moreover have "distinct hs" if "sorted_wrt (<) hs"
    using that strict_sorted_iff by blast
  ultimately show ?thesis using r h' by blast
qed

theorem handles_count_up_from_zero_witness:
  "map_option fst
     (run [Op_Opendir ''/'', Op_Open ''/alice/project/main/README.md'' 0, Op_Releasedir ''/'' 0,
           Op_Opendir ''/nobody'', Op_Opendir ''/alice'']
        (new demo_client ''/'') (True, [])) = Some [0, 1, 2]
   \<and> length [0, 1, 2 :: 64 word] \<le> 2 ^ 64
   \<and> sorted_wrt (<) [0, 1, 2 :: 64 word] \<and> distinct [0, 1, 2 :: 64 word]"
proof -
  define ops where "ops = [Op_Opendir ''/'', Op_Open ''/alice/project/main/README.md'' 0,
     Op_Releasedir ''/'' 0, Op_Opendir ''/nobody'', Op_Opendir ''/alice'']"
  have ev: "map_option fst (run ops (new demo_client ''/'') (True, [])) = Some [0, 1, 2]"
    unfolding ops_def by code_simp
  from handles_count_up_from_zero [of ops demo_client "''/''" "(True, [])"]
  obtain hs fs' w' where
    r: "run ops (new demo_client ''/'') (True, []) = Some (hs, fs', w')"
    and s: "length hs \<le> 2 ^ 64 \<longrightarrow> sorted_wrt (<) hs \<and> distinct hs"
    by blast
  from r ev have hs: "hs = [0, 1, 2]" by simp
  have l: "length [0, 1, 2 :: 64 word] \<le> 2 ^ 64" by simp
  from s hs l have "sorted_wrt (<) [0, 1, 2 :: 64 word] \<and> distinct [0, 1, 2 :: 64 word]"
    by blast
  with ev l show ?thesis unfolding ops_def by blast
qed

text \<open>C4, as stated, fails: the first handle issued is zero.\<close>

theorem first_handle_is_zero:
  "map_option fst (run [Op_Opendir ''/''] (new demo_client ''/'') (True, [])) = Some [0]"
  by code_simp

section \<open>Properties of the directory listing\<close>

text \<open>
  The handle table of every state that the host can reach binds each handle to an
  obstack as \<open>openex\<close> populates it: one that has a ref when it has an entry, and a
  repository when it has a ref.
\<close>

lemma populated_slots:
  "populated k obs \<Longrightarrow>
     (entry obs \<noteq> None \<longrightarrow> ref obs \<noteq> None) \<and> (ref obs \<noteq> None \<longrightarrow> repository obs \<noteq> None)
     \<and> (repository obs \<noteq> None \<longrightarrow> owner obs \<noteq> None)"
  by (auto simp: populated_def)

lemma reachable_obstack:
  assumes "run ops (new cl pfx) w = Some (hs, fs, w')" and "openmap fs h = Some x"
  shows "\<exists>obs. x = Some obs
           \<and> (entry obs \<noteq> None \<longrightarrow> ref obs \<noteq> None) \<and> (ref obs \<noteq> None \<longrightarrow> repository obs \<noteq> None)
           \<and> (repository obs \<noteq> None \<longrightarrow> owner obs \<noteq> None)"
proof -
  from run_spec [OF table_ok_new, of ops cl pfx w] assms(1) have "table_ok fs" by auto
  with assms(2) obtain obs k where "x = Some obs" "populated k obs"
    unfolding table_ok_def by blast
  with populated_slots [of k obs] show ?thesis by blast
qed

lemma TrimPrefix_same_iff:
  "p \<noteq> [] \<Longrightarrow> (r = TrimPrefix r p) = (\<not> HasPrefix r p)"
proof -
  assume p: "p \<noteq> []"
  have "drop (length p) r \<noteq> r" if "HasPrefix r p"
  proof
    assume "drop (length p) r = r"
    then have "length (drop (length p) r) = length r" by simp
    then have 1: "length r - length p = length r" by simp
    from p have 2: "0 < length p" by simp
    from that have 3: "length p \<le> length r" by (simp add: HasPrefix_def)
    from 1 2 3 show False by arith
  qed
  then show ?thesis by (auto simp: TrimPrefix_def)
qed

lemma heads_listing_Cons:
  "heads_listing cl (elm # lst) =
     (if HasPrefix (RefName cl elm) ''refs/heads/''
      then ReplaceAll (drop (length ''refs/heads/'') (RefName cl elm)) CHR ''/'' CHR '' ''
             # heads_listing cl lst
      else heads_listing cl lst)"
  by (simp add: heads_listing_def)

lemma fill_refs_Cons:
  "fill_refs cl fill stat (elm # lst) out =
     (if HasPrefix (RefName cl elm) ''refs/heads/'' then
        (let n = ReplaceAll (drop (length ''refs/heads/'') (RefName cl elm)) CHR ''/'' CHR '' ''
         in if \<not> fill out (n, stat) then out @ [(n, stat)]
            else fill_refs cl fill stat lst (out @ [(n, stat)]))
      else fill_refs cl fill stat lst out)"
proof -
  have ne: "''refs/heads/'' \<noteq> []" by simp
  show ?thesis
    unfolding fill_refs.simps Let_def TrimPrefix_same_iff [OF ne]
    by (simp add: TrimPrefix_def)
qed

lemma fill_refs_listing:
  "\<exists>k. map fst (fill_refs cl fill stat lst out) = map fst out @ take k (heads_listing cl lst)"
proof (induction lst arbitrary: out)
  case Nil
  then show ?case by simp
next
  case (Cons elm lst)
  define n where "n = ReplaceAll (drop (length ''refs/heads/'') (RefName cl elm)) CHR ''/'' CHR '' ''"
  show ?case
  proof (cases "HasPrefix (RefName cl elm) ''refs/heads/''")
    case False
    with Cons.IH [of out] show ?thesis
      by (simp only: fill_refs_Cons heads_listing_Cons if_False)
  next
    case True
    show ?thesis
    proof (cases "fill out (n, stat)")
      case False
      have "map fst (out @ [(n, stat)]) = map fst out @ take 1 (n # heads_listing cl lst)"
        by simp
      with True False show ?thesis
        unfolding fill_refs_Cons heads_listing_Cons Let_def n_def [symmetric]
        by (simp only: if_True not_False_eq_True) blast
    next
      case acc: True
      from Cons.IH [of "out @ [(n, stat)]"] obtain k where
        "map fst (fill_refs cl fill stat lst (out @ [(n, stat)]))
           = map fst (out @ [(n, stat)]) @ take k (heads_listing cl lst)" by blast
      then have "map fst (fill_refs cl fill stat lst (out @ [(n, stat)]))
           = map fst out @ take (Suc k) (n # heads_listing cl lst)" by simp
      with True acc show ?thesis
        unfolding fill_refs_Cons heads_listing_Cons Let_def n_def [symmetric]
        by (simp only: if_True not_True_eq_False if_False) blast
    qed
  qed
qed

lemma fill_refs_all:
  assumes "\<forall>hist e. fill hist e"
  shows "map fst (fill_refs cl fill stat lst out) = map fst out @ heads_listing cl lst"
proof (induction lst arbitrary: out)
  case Nil
  then show ?case by (simp add: heads_listing_def)
next
  case (Cons elm lst)
  show ?case
    unfolding fill_refs_Cons heads_listing_Cons Let_def
    using assms by (simp add: Cons.IH)
qed

text \<open>
  C8. For a handle whose obstack has a repository and no ref (and so no entry), when
  \<open>GetRefs\<close> returns the refs, \<open>Readdir\<close> makes that one provider call, returns \<open>errc\<close> zero, and the names it passes
  to \<open>fill\<close> are \<open>.\<close>, \<open>..\<close> and then the listing of the specification (the refs under
  \<open>refs/heads/\<close>, prefix stripped, slashes as spaces) in order: all of it when \<open>fill\<close> never
  asks to stop, and otherwise an initial part of it. No other name is passed.
\<close>

theorem Readdir_repository_lists_heads:
  assumes "openmap fs h = Some (Some obs)"
    and "repository obs = Some repo" and "ref obs = None" and "entry obs = None"
    and "GetRefs (client fs) repo (fst w) = (Inr refs, s')"
  shows "\<exists>out k. Readdir fs path fill h now w = Some (0, out, (s', snd w @ [GetRefs_call repo]))
           \<and> map fst out = ''.'' # ''..'' # take k (heads_listing (client fs) refs)
           \<and> ((\<forall>hist e. fill hist e) \<longrightarrow>
                 map fst out = ''.'' # ''..'' # heads_listing (client fs) refs)"
proof -
  define stat where "stat = fuseStat S_IFDIR 0 now"
  define out where
    "out = fill_refs (client fs) fill stat refs [(''.'', stat), (''..'', stat)]"
  have rd: "Readdir fs path fill h now w = Some (0, out, (s', snd w @ [GetRefs_call repo]))"
    using assms by (simp add: Readdir_def do_GetRefs_def out_def stat_def)
  from fill_refs_listing [of "client fs" fill stat refs "[(''.'', stat), (''..'', stat)]"]
  obtain k where k: "map fst out = ''.'' # ''..'' # take k (heads_listing (client fs) refs)"
    unfolding out_def by auto
  have "map fst out = ''.'' # ''..'' # heads_listing (client fs) refs"
    if "\<forall>hist e. fill hist e"
    using fill_refs_all [OF that, of "client fs" stat refs "[(''.'', stat), (''..'', stat)]"]
    unfolding out_def by simp
  then have all: "(\<forall>hist e. fill hist e) \<longrightarrow>
                 map fst out = ''.'' # ''..'' # heads_listing (client fs) refs" by simp
  show ?thesis
    by (rule exI [of _ out], rule exI [of _ k], intro conjI) (rule rd, rule k, rule all)
qed

theorem Readdir_repository_lists_heads_witness:
  "listing (Readdir
      (demo_fs \<lparr>owner = Some ''Alice'', repository = Some ''Project'', ref = None, entry = None\<rparr>)
      ''/alice/project'' (\<lambda>hist e. True) 0 7 (True, []))
     = Some (0, [''.'', ''..'', ''main'', ''feature x''])
   \<and> map (RefName demo_client) demo_refs
       = [''refs/heads/main'', ''refs/heads/feature/x'', ''refs/tags/v1.0'']"
proof -
  define obs :: "(string, string, string, string) obstack" where
    "obs = \<lparr>owner = Some ''Alice'', repository = Some ''Project'', ref = None, entry = None\<rparr>"
  have h: "openmap (demo_fs obs) 0 = Some (Some obs)" by (simp add: demo_fs_def)
  have o: "repository obs = Some ''Project''" "ref obs = None" "entry obs = None"
    by (simp_all add: obs_def)
  have g: "GetRefs (client (demo_fs obs)) ''Project'' (fst (True, [])) = (Inr demo_refs, True)"
    by (simp add: demo_fs_def new_def demo_client_def offline_def)
  have l: "heads_listing (client (demo_fs obs)) demo_refs = [''main'', ''feature x'']"
    by (simp add: demo_fs_def new_def demo_client_def demo_refs_def heads_listing_def
        HasPrefix_def ReplaceAll_def)
  have n: "map (RefName demo_client) demo_refs
       = [''refs/heads/main'', ''refs/heads/feature/x'', ''refs/tags/v1.0'']"
    by (simp add: demo_client_def demo_refs_def)
  from Readdir_repository_lists_heads [OF h o g, of "''/alice/project''" "\<lambda>hist e. True" 7]
  obtain out where
    "Readdir (demo_fs obs) ''/alice/project'' (\<lambda>hist e. True) 0 7 (True, [])
       = Some (0, out, (True, snd (True, []) @ [GetRefs_call ''Project'']))"
    "map fst out = ''.'' # ''..'' # heads_listing (client (demo_fs obs)) demo_refs"
    by auto
  then show ?thesis unfolding l obs_def [symmetric] using n by (simp add: listing_def)
qed

text \<open>
  C10. For a valid handle (bound to an obstack that has a ref when it has an entry),
  every \<open>errc\<close> that \<open>Readdir\<close> returns is zero; and when the enumeration call it makes for
  the obstack (\<open>GetTree\<close>, \<open>GetRefs\<close>, \<open>GetRepositories\<close> or \<open>GetOwners\<close>) returns an error,
  \<open>Readdir\<close> returns \<open>errc\<close> zero and has passed to \<open>fill\<close> the entries \<open>.\<close> and \<open>..\<close> only.
\<close>

theorem Readdir_discards_provider_error:
  assumes "openmap fs h = Some (Some obs)"
    and "entry obs \<noteq> None \<longrightarrow> ref obs \<noteq> None"
  shows "(\<forall>errc out w'. Readdir fs path fill h now w = Some (errc, out, w') \<longrightarrow> errc = 0)
    \<and> (\<forall>rf repo err s'. ref obs = Some rf \<and> repository obs = Some repo
          \<and> GetTree (client fs) repo rf (entry obs) (fst w) = (Inl err, s')
        \<longrightarrow> (\<exists>stat. Readdir fs path fill h now w =
               Some (0, [(''.'', stat), (''..'', stat)],
                     (s', snd w @ [GetTree_call repo rf (entry obs)]))))
    \<and> (\<forall>repo err s'. ref obs = None \<and> repository obs = Some repo
          \<and> GetRefs (client fs) repo (fst w) = (Inl err, s')
        \<longrightarrow> (\<exists>stat. Readdir fs path fill h now w =
               Some (0, [(''.'', stat), (''..'', stat)], (s', snd w @ [GetRefs_call repo]))))
    \<and> (\<forall>ow err s'. ref obs = None \<and> repository obs = None \<and> owner obs = Some ow
          \<and> GetRepositories (client fs) ow (fst w) = (Inl err, s')
        \<longrightarrow> (\<exists>stat. Readdir fs path fill h now w =
               Some (0, [(''.'', stat), (''..'', stat)],
                     (s', snd w @ [GetRepositories_call ow]))))
    \<and> (\<forall>err s'. ref obs = None \<and> repository obs = None \<and> owner obs = None
          \<and> GetOwners (client fs) (fst w) = (Inl err, s')
        \<longrightarrow> (\<exists>stat. Readdir fs path fill h now w =
               Some (0, [(''.'', stat), (''..'', stat)], (s', snd w @ [GetOwners_call]))))"
proof -
  have a: "\<forall>errc out w'. Readdir fs path fill h now w = Some (errc, out, w') \<longrightarrow> errc = 0"
    using assms(1)
    by (auto simp: Readdir_def Let_def split: option.splits prod.splits sum.splits if_splits)
  have b: "\<exists>stat. Readdir fs path fill h now w =
               Some (0, [(''.'', stat), (''..'', stat)],
                     (s', snd w @ [GetTree_call repo rf (entry obs)]))"
    if "ref obs = Some rf" "repository obs = Some repo"
       "GetTree (client fs) repo rf (entry obs) (fst w) = (Inl err, s')" for rf repo err s'
    using assms that by (cases "entry obs") (auto simp: Readdir_def do_GetTree_def Let_def)
  have c: "\<exists>stat. Readdir fs path fill h now w =
               Some (0, [(''.'', stat), (''..'', stat)], (s', snd w @ [GetRefs_call repo]))"
    if "ref obs = None" "repository obs = Some repo"
       "GetRefs (client fs) repo (fst w) = (Inl err, s')" for repo err s'
    using assms that by (cases "entry obs") (auto simp: Readdir_def do_GetRefs_def Let_def)
  have d: "\<exists>stat. Readdir fs path fill h now w =
               Some (0, [(''.'', stat), (''..'', stat)], (s', snd w @ [GetRepositories_call ow]))"
    if "ref obs = None" "repository obs = None" "owner obs = Some ow"
       "GetRepositories (client fs) ow (fst w) = (Inl err, s')" for ow err s'
    using assms that by (cases "entry obs") (auto simp: Readdir_def do_GetRepositories_def Let_def)
  have e: "\<exists>stat. Readdir fs path fill h now w =
               Some (0, [(''.'', stat), (''..'', stat)], (s', snd w @ [GetOwners_call]))"
    if "ref obs = None" "repository obs = None" "owner obs = None"
       "GetOwners (client fs) (fst w) = (Inl err, s')" for err s'
    using assms that by (cases "entry obs") (auto simp: Readdir_def do_GetOwners_def Let_def)
  from a b c d e show ?thesis by blast
qed

text \<open>The four levels, with a provider that is not reachable.\<close>

theorem Readdir_discards_provider_error_witness:
  "listing (Readdir
      (demo_fs \<lparr>owner = Some ''Alice'', repository = Some ''Project'',
                ref = Some ''refs/heads/main'', entry = Some ''lib''\<rparr>)
      ''/alice/project/main/lib'' (\<lambda>hist e. True) 0 7 (False, []))
     = Some (0, [''.'', ''..''])
   \<and> listing (Readdir
      (demo_fs \<lparr>owner = Some ''Alice'', repository = Some ''Project'', ref = None, entry = None\<rparr>)
      ''/alice/project'' (\<lambda>hist e. True) 0 7 (False, []))
     = Some (0, [''.'', ''..''])
   \<and> listing (Readdir
      (demo_fs \<lparr>owner = Some ''Alice'', repository = None, ref = None, entry = None\<rparr>)
      ''/alice'' (\<lambda>hist e. True) 0 7 (False, []))
     = Some (0, [''.'', ''..''])
   \<and> listing (Readdir
      (demo_fs \<lparr>owner = None, repository = None, ref = None, entry = None\<rparr>)
      ''/'' (\<lambda>hist e. True) 0 7 (False, []))
     = Some (0, [''.'', ''..''])"
proof -
  define o4 :: "(string, string, string, string) obstack" where
    "o4 = \<lparr>owner = Some ''Alice'', repository = Some ''Project'',
           ref = Some ''refs/heads/main'', entry = Some ''lib''\<rparr>"
  define o2 :: "(string, string, string, string) obstack" where
    "o2 = \<lparr>owner = Some ''Alice'', repository = Some ''Project'', ref = None, entry = None\<rparr>"
  define o1 :: "(string, string, string, string) obstack" where
    "o1 = \<lparr>owner = Some ''Alice'', repository = None, ref = None, entry = None\<rparr>"
  define o0 :: "(string, string, string, string) obstack" where
    "o0 = \<lparr>owner = None, repository = None, ref = None, entry = None\<rparr>"
  have h: "openmap (demo_fs obs) 0 = Some (Some obs)" for obs
    by (simp add: demo_fs_def)
  have cl: "client (demo_fs obs) = demo_client" for obs
    by (simp add: demo_fs_def new_def)
  have w4: "entry o4 \<noteq> None \<longrightarrow> ref o4 \<noteq> None" by (simp add: o4_def)
  have w2: "entry o2 \<noteq> None \<longrightarrow> ref o2 \<noteq> None" by (simp add: o2_def)
  have w1: "entry o1 \<noteq> None \<longrightarrow> ref o1 \<noteq> None" by (simp add: o1_def)
  have w0: "entry o0 \<noteq> None \<longrightarrow> ref o0 \<noteq> None" by (simp add: o0_def)
  have g4: "ref o4 = Some ''refs/heads/main'' \<and> repository o4 = Some ''Project''
      \<and> GetTree (client (demo_fs o4)) ''Project'' ''refs/heads/main'' (entry o4) (fst (False, []))
          = (Inl (ErrOther ''offline''), False)"
    by (simp add: cl o4_def demo_client_def offline_def)
  have g2: "ref o2 = None \<and> repository o2 = Some ''Project''
      \<and> GetRefs (client (demo_fs o2)) ''Project'' (fst (False, []))
          = (Inl (ErrOther ''offline''), False)"
    by (simp add: cl o2_def demo_client_def offline_def)
  have g1: "ref o1 = None \<and> repository o1 = None \<and> owner o1 = Some ''Alice''
      \<and> GetRepositories (client (demo_fs o1)) ''Alice'' (fst (False, []))
          = (Inl (ErrOther ''offline''), False)"
    by (simp add: cl o1_def demo_client_def offline_def)
  have g0: "ref o0 = None \<and> repository o0 = None \<and> owner o0 = None
      \<and> GetOwners (client (demo_fs o0)) (fst (False, []))
          = (Inl (ErrOther ''offline''), False)"
    by (simp add: cl o0_def demo_client_def offline_def)
  have r4: "listing (Readdir (demo_fs o4) ''/alice/project/main/lib'' (\<lambda>hist e. True) 0 7
              (False, [])) = Some (0, [''.'', ''..''])"
    using Readdir_discards_provider_error [OF h w4,
        of "''/alice/project/main/lib''" "\<lambda>hist e. True" 7 "(False, [])"] g4
    by (auto simp: listing_def)
  have r2: "listing (Readdir (demo_fs o2) ''/alice/project'' (\<lambda>hist e. True) 0 7
              (False, [])) = Some (0, [''.'', ''..''])"
    using Readdir_discards_provider_error [OF h w2,
        of "''/alice/project''" "\<lambda>hist e. True" 7 "(False, [])"] g2
    by (auto simp: listing_def)
  have r1: "listing (Readdir (demo_fs o1) ''/alice'' (\<lambda>hist e. True) 0 7
              (False, [])) = Some (0, [''.'', ''..''])"
    using Readdir_discards_provider_error [OF h w1,
        of "''/alice''" "\<lambda>hist e. True" 7 "(False, [])"] g1
    by (auto simp: listing_def)
  have r0: "listing (Readdir (demo_fs o0) ''/'' (\<lambda>hist e. True) 0 7
              (False, [])) = Some (0, [''.'', ''..''])"
    using Readdir_discards_provider_error [OF h w0,
        of "''/''" "\<lambda>hist e. True" 7 "(False, [])"] g0
    by (auto simp: listing_def)
  from r4 r2 r1 r0 show ?thesis unfolding o4_def o2_def o1_def o0_def by simp
qed

end
